theory Spec2Isabelle
  imports Main
begin

chapter \<open>Magnify: the utility module \<^verbatim>\<open>lib/utils.ts\<close>\<close>

text \<open>
  A shallow embedding of the helper functions of \<^verbatim>\<open>src/lib/utils.ts\<close>:
  \<^verbatim>\<open>deepMergeObjects\<close>, \<^verbatim>\<open>handleError\<close>, \<^verbatim>\<open>shimmer\<close> / \<^verbatim>\<open>toBase64\<close> /
  \<^verbatim>\<open>getDataUrl\<close>, \<^verbatim>\<open>formUrlQuery\<close>, \<^verbatim>\<open>removeKeysFromQuery\<close>, \<^verbatim>\<open>debounce\<close> and
  \<^verbatim>\<open>download\<close>. The first part holds the definitions, the second part the properties.
\<close>

section \<open>JavaScript values\<close>

text \<open>
  The functions take values of type \<^verbatim>\<open>any\<close>. A value is modelled as a tree of plain data:
  the primitives, arrays, and objects. An object is the list of its own enumerable
  properties in the order in which the engine enumerates them (\<^verbatim>\<open>for ... in\<close>,
  \<^verbatim>\<open>Object.keys\<close>, object spread): properties whose name is an array index first, in
  ascending numeric order, then the other properties in the order of their creation.

  Limits of the model: numbers are the integer-valued ones (\<^verbatim>\<open>NaN\<close>, infinities and
  fractions are left out), and an integer that no double equals stands for no number; a
  string is a list of code units below 256; functions and symbols are not values, and
  a value is a tree, so that no object contains itself. The prototypes of the values are
  built-in ones: they come in where \<^verbatim>\<open>deepMergeObjects\<close> reaches them, through the
  names \<^verbatim>\<open>hasOwnProperty\<close> and \<^verbatim>\<open>__proto__\<close>.
\<close>

datatype jsval =
    JUndefined
  | JNull
  | JBool bool
  | JNum int
  | JBigInt int
  | JStr string
  | JArr "jsval list"
  | JObj "(string \<times> jsval) list"

type_synonym props = "(string \<times> jsval) list"

subsection \<open>Numbers as strings, strings as array indices\<close>

definition digit_char :: "nat \<Rightarrow> char" where
  "digit_char d = ''0123456789'' ! d"

fun nat_to_string :: "nat \<Rightarrow> string" where
  "nat_to_string n =
     (if n < 10 then [digit_char n]
      else nat_to_string (n div 10) @ [digit_char (n mod 10)])"

declare nat_to_string.simps [simp del]

text \<open>
  A number is a double. \<open>to_double n\<close> is the double nearest to the natural number \<open>n\<close>
  (ties to the even significand of 53 bits); \<open>n\<close> is a double when \<open>to_double n = n\<close>.
\<close>

fun bit_length :: "nat \<Rightarrow> nat" where
  "bit_length n = (if n = 0 then 0 else Suc (bit_length (n div 2)))"

declare bit_length.simps [simp del]

definition to_double :: "nat \<Rightarrow> nat" where
  "to_double n =
     (if n < 2 ^ 53 then n
      else (let sh = bit_length n - 53; q = n div 2 ^ sh; r = n mod 2 ^ sh; half = 2 ^ (sh - 1)
            in (if half < r \<or> (r = half \<and> odd q) then q + 1 else q) * 2 ^ sh))"

text \<open>
  The digits of \<^verbatim>\<open>Number::toString\<close> (ECMAScript) for a number \<open>x\<close> of \<open>nd\<close> decimal digits,
  \<open>2\<^sup>5\<^sup>3 \<le> x\<close>: the shortest significand \<open>s\<close>, of \<open>k\<close> digits, and the exponent \<open>e\<close> for which
  \<open>s * 10\<^sup>e\<close> is read back as \<open>x\<close>, the nearest to \<open>x\<close> if there are two. Seventeen digits
  tell any two doubles apart.
\<close>

function shortest_digits :: "nat \<Rightarrow> nat \<Rightarrow> nat \<Rightarrow> nat \<times> nat" where
  "shortest_digits x nd k =
     (let p = 10 ^ (nd - k); lo = x div p;
          below = (to_double (lo * p) = x); above = (to_double ((lo + 1) * p) = x)
      in if below \<and> above then
           (if x - lo * p < (lo + 1) * p - x \<or> (x - lo * p = (lo + 1) * p - x \<and> even lo)
            then (lo, nd - k) else (lo + 1, nd - k))
         else if below then (lo, nd - k)
         else if above then (lo + 1, nd - k)
         else if 17 \<le> k \<or> nd \<le> k then (lo, nd - k)
         else shortest_digits x nd (Suc k))"
  by pat_completeness auto
termination
  by (relation "measure (\<lambda>(x, nd, k). 17 - k)") auto

declare shortest_digits.simps [simp del]

definition strip_zeros :: "string \<Rightarrow> string" where
  "strip_zeros ds = rev (dropWhile (\<lambda>c. c = CHR ''0'') (rev ds))"

text \<open>The form \<^verbatim>\<open>d.ddde+n\<close>, for the digits \<open>ds\<close> of a number of \<open>n\<close> decimal digits.\<close>

definition exponent_form :: "string \<Rightarrow> nat \<Rightarrow> string" where
  "exponent_form ds n =
     (case strip_zeros ds of
        [] \<Rightarrow> []
      | d # rest \<Rightarrow>
          (if rest = [] then [d] else d # CHR ''.'' # rest) @ ''e+'' @ nat_to_string (n - 1))"

text \<open>
  A number below \<open>2\<^sup>5\<^sup>3\<close> is written with all its digits; a larger one with its shortest
  digits, followed by zeros if it has at most 21 digits and in exponent form otherwise.
\<close>

definition number_digits :: "nat \<Rightarrow> string" where
  "number_digits x =
     (if x < 2 ^ 53 then nat_to_string x
      else (case shortest_digits x (length (nat_to_string x)) 1 of
              (s, e) \<Rightarrow>
                if length (nat_to_string s) + e \<le> 21 then nat_to_string s @ replicate e CHR ''0''
                else exponent_form (nat_to_string s) (length (nat_to_string s) + e)))"

text \<open>\<^verbatim>\<open>String(n)\<close> for an integer-valued number.\<close>

definition int_to_string :: "int \<Rightarrow> string" where
  "int_to_string i = (if i < 0 then CHR ''-'' # number_digits (nat (- i)) else number_digits (nat i))"

text \<open>\<^verbatim>\<open>String(n)\<close> for a BigInt: all its digits.\<close>

definition bigint_to_string :: "int \<Rightarrow> string" where
  "bigint_to_string i =
     (if i < 0 then CHR ''-'' # nat_to_string (nat (- i)) else nat_to_string (nat i))"

definition is_digit :: "char \<Rightarrow> bool" where
  "is_digit c = (c \<in> set ''0123456789'')"

definition digits_value :: "string \<Rightarrow> nat" where
  "digits_value s = foldl (\<lambda>a c. 10 * a + ((of_char c :: nat) - 48)) 0 s"

text \<open>
  A property name is an array index when it is the canonical decimal form of an integer
  from 0 to \<open>2\<^sup>3\<^sup>2 - 2\<close> (ECMAScript, "array index"); \<open>array_index\<close> returns that
  integer.
\<close>

definition array_index :: "string \<Rightarrow> nat option" where
  "array_index s =
     (if s \<noteq> [] \<and> list_all is_digit s \<and> nat_to_string (digits_value s) = s
         \<and> digits_value s < 4294967295
      then Some (digits_value s) else None)"

subsection \<open>Truthiness, \<^verbatim>\<open>typeof\<close>, property access\<close>

fun truthy :: "jsval \<Rightarrow> bool" where
  "truthy JUndefined = False"
| "truthy JNull = False"
| "truthy (JBool b) = b"
| "truthy (JNum n) = (n \<noteq> 0)"
| "truthy (JBigInt n) = (n \<noteq> 0)"
| "truthy (JStr s) = (s \<noteq> [])"
| "truthy (JArr xs) = True"
| "truthy (JObj ps) = True"

text \<open>\<^verbatim>\<open>typeof v === "object"\<close>: true of objects, arrays and \<^verbatim>\<open>null\<close>.\<close>

fun typeof_object :: "jsval \<Rightarrow> bool" where
  "typeof_object JNull = True"
| "typeof_object (JArr xs) = True"
| "typeof_object (JObj ps) = True"
| "typeof_object v = False"

definition index_keys :: "nat \<Rightarrow> string list" where
  "index_keys n = map nat_to_string [0..<n]"

text \<open>
  The own enumerable properties of a value, in enumeration order: those of an object, the
  elements of an array under their indices, the characters of a string under theirs.
  This is what \<^verbatim>\<open>{ ...v }\<close> copies and what \<^verbatim>\<open>for (key in v)\<close> runs through.
\<close>

fun own_props :: "jsval \<Rightarrow> props" where
  "own_props (JObj ps) = ps"
| "own_props (JArr xs) = zip (index_keys (length xs)) xs"
| "own_props (JStr s) = zip (index_keys (length s)) (map (\<lambda>c. JStr [c]) s)"
| "own_props v = []"

definition own_keys :: "jsval \<Rightarrow> string list" where
  "own_keys v = map fst (own_props v)"

text \<open>\<^verbatim>\<open>obj.hasOwnProperty(key)\<close>, for the own enumerable properties.\<close>

definition has_own_property :: "jsval \<Rightarrow> string \<Rightarrow> bool" where
  "has_own_property obj key = (key \<in> set (own_keys obj))"

fun length_prop :: "jsval \<Rightarrow> jsval" where
  "length_prop (JArr xs) = JNum (int (length xs))"
| "length_prop (JStr s) = JNum (int (length s))"
| "length_prop v = JUndefined"

text \<open>\<^verbatim>\<open>obj[key]\<close> for a value that is neither \<^verbatim>\<open>null\<close> nor \<^verbatim>\<open>undefined\<close>.\<close>

definition get_prop :: "jsval \<Rightarrow> string \<Rightarrow> jsval" where
  "get_prop obj key =
     (case map_of (own_props obj) key of
        Some v \<Rightarrow> v
      | None \<Rightarrow> (if key = ''length'' then length_prop obj else JUndefined))"

subsection \<open>Assignment to a property of a plain object\<close>

fun update_prop :: "string \<Rightarrow> jsval \<Rightarrow> props \<Rightarrow> props" where
  "update_prop k v [] = []"
| "update_prop k v (p # ps) = (if fst p = k then (k, v) # ps else p # update_prop k v ps)"

fun insert_index :: "nat \<Rightarrow> string \<Rightarrow> jsval \<Rightarrow> props \<Rightarrow> props" where
  "insert_index i k v [] = [(k, v)]"
| "insert_index i k v (p # ps) =
     (case array_index (fst p) of
        Some j \<Rightarrow> (if j < i then p # insert_index i k v ps else (k, v) # p # ps)
      | None \<Rightarrow> (k, v) # p # ps)"

text \<open>
  \<^verbatim>\<open>output[k] = v\<close>: an existing property keeps its place and takes the new value; a new
  property whose name is an array index goes among the index properties, in numeric order;
  any other new property goes last.
\<close>

definition set_prop :: "string \<Rightarrow> jsval \<Rightarrow> props \<Rightarrow> props" where
  "set_prop k v ps =
     (if k \<in> set (map fst ps) then update_prop k v ps
      else (case array_index k of
              Some i \<Rightarrow> insert_index i k v ps
            | None \<Rightarrow> ps @ [(k, v)]))"

text \<open>\<^verbatim>\<open>delete obj[k]\<close>.\<close>

definition delete_prop :: "string \<Rightarrow> props \<Rightarrow> props" where
  "delete_prop k ps = filter (\<lambda>p. fst p \<noteq> k) ps"

subsection \<open>Scalars\<close>

text \<open>A scalar is a value that is neither an object nor an array.\<close>

fun scalar :: "jsval \<Rightarrow> bool" where
  "scalar (JArr xs) = False"
| "scalar (JObj ps) = False"
| "scalar v = True"

subsection \<open>The order of enumeration\<close>

text \<open>
  \<open>key_before a b\<close>: the engine enumerates a property named \<open>a\<close> before a later-created
  property named \<open>b\<close>.
\<close>

definition key_before :: "string \<Rightarrow> string \<Rightarrow> bool" where
  "key_before a b =
     (case array_index a of
        Some i \<Rightarrow> (case array_index b of Some j \<Rightarrow> i < j | None \<Rightarrow> True)
      | None \<Rightarrow> array_index b = None)"

definition ordered_keys :: "string list \<Rightarrow> bool" where
  "ordered_keys ks = (distinct ks \<and> sorted_wrt key_before ks)"

subsection \<open>Exceptions\<close>

text \<open>
  A function that may throw returns a sum, with the thrown value on the left. A thrown
  \<^verbatim>\<open>new Error(m)\<close> is the value \<open>Error m\<close>; \<open>TypeError\<close> is a \<^verbatim>\<open>TypeError\<close> that the
  engine throws, with the message that the engine gives it.
\<close>

datatype js_error = Error string | TypeError

section \<open>\<^verbatim>\<open>deepMergeObjects\<close>\<close>

text \<open>
  \<^verbatim>\<open>
  export function deepMergeObjects(obj1: any, obj2: any): any {
    if (obj2 === null || obj2 === undefined) { return obj1; }
    let output = { ...obj2 };
    for (let key in obj1) {
      if (obj1.hasOwnProperty(key)) {
        if (obj1[key] && typeof obj1[key] === "object" &&
            obj2[key] && typeof obj2[key] === "object") {
          output[key] = deepMergeObjects(obj1[key], obj2[key]);
        } else {
          output[key] = obj1[key];
        }
      }
    }
    return output;
  }
  \<close>
  The first argument is a value. The second argument is a value or a built-in prototype
  object: \<^verbatim>\<open>obj2[key]\<close> with the key \<^verbatim>\<open>__proto__\<close> reads the prototype of \<open>obj2\<close> when
  \<open>obj2\<close> has no property of its own under that name, and the function then calls itself
  with that prototype. \<open>ObjectPrototype\<close> is \<^verbatim>\<open>Object.prototype\<close>; \<open>BuiltinPrototype\<close> is
  any of \<^verbatim>\<open>Array.prototype\<close>, \<^verbatim>\<open>String.prototype\<close>, \<^verbatim>\<open>Number.prototype\<close>,
  \<^verbatim>\<open>Boolean.prototype\<close> and \<^verbatim>\<open>BigInt.prototype\<close>, whose prototype is
  \<^verbatim>\<open>Object.prototype\<close>. A prototype has no enumerable property; its properties other than
  \<^verbatim>\<open>__proto__\<close> are functions and numbers, which fail the test for an object as
  \<^verbatim>\<open>undefined\<close> does and are read as \<^verbatim>\<open>undefined\<close>.
\<close>

datatype overlay = Plain jsval | ObjectPrototype | BuiltinPrototype

text \<open>\<^verbatim>\<open>obj2 === null || obj2 === undefined\<close>.\<close>

fun null_or_undefined :: "overlay \<Rightarrow> bool" where
  "null_or_undefined (Plain JNull) = True"
| "null_or_undefined (Plain JUndefined) = True"
| "null_or_undefined v = False"

text \<open>The properties that \<^verbatim>\<open>{ ...obj2 }\<close> copies.\<close>

fun spread :: "overlay \<Rightarrow> props" where
  "spread (Plain v) = own_props v"
| "spread ObjectPrototype = []"
| "spread BuiltinPrototype = []"

text \<open>The prototype of a value that is neither \<^verbatim>\<open>null\<close> nor \<^verbatim>\<open>undefined\<close>.\<close>

fun prototype_of :: "jsval \<Rightarrow> overlay" where
  "prototype_of (JObj ps) = ObjectPrototype"
| "prototype_of v = BuiltinPrototype"

text \<open>
  \<^verbatim>\<open>obj2[key]\<close>: a property of \<open>obj2\<close> itself if there is one; otherwise, under the name
  \<^verbatim>\<open>__proto__\<close>, the prototype.
\<close>

fun read_overlay :: "overlay \<Rightarrow> string \<Rightarrow> overlay" where
  "read_overlay (Plain v) key =
     (case map_of (own_props v) key of
        Some x \<Rightarrow> Plain x
      | None \<Rightarrow> (if key = ''__proto__'' then prototype_of v else Plain (get_prop v key)))"
| "read_overlay BuiltinPrototype key =
     (if key = ''__proto__'' then ObjectPrototype else Plain JUndefined)"
| "read_overlay ObjectPrototype key =
     (if key = ''__proto__'' then Plain JNull else Plain JUndefined)"

text \<open>\<^verbatim>\<open>v && typeof v === "object"\<close>.\<close>

fun is_object :: "overlay \<Rightarrow> bool" where
  "is_object (Plain v) = (truthy v \<and> typeof_object v)"
| "is_object ObjectPrototype = True"
| "is_object BuiltinPrototype = True"

text \<open>
  \<^verbatim>\<open>obj1.hasOwnProperty(key)\<close>. The method is looked up on \<open>obj1\<close>: a property of \<open>obj1\<close>
  itself named \<^verbatim>\<open>hasOwnProperty\<close> is found first, it is not a function (no value of the
  model is), and the call throws a \<^verbatim>\<open>TypeError\<close>.
\<close>

definition call_hasOwnProperty :: "jsval \<Rightarrow> string \<Rightarrow> js_error + bool" where
  "call_hasOwnProperty obj1 key =
     (if ''hasOwnProperty'' \<in> set (own_keys obj1) then Inl TypeError
      else Inr (has_own_property obj1 key))"

text \<open>
  \<open>shadowing v\<close>: an object in \<open>v\<close>, at any depth, has a key named \<^verbatim>\<open>hasOwnProperty\<close>.
\<close>

fun shadowing :: "jsval \<Rightarrow> bool" where
  "shadowing (JObj ps) =
     (''hasOwnProperty'' \<in> fst ` set ps \<or> (\<exists>p \<in> set ps. shadowing (snd p)))"
| "shadowing (JArr xs) = (\<exists>x \<in> set xs. shadowing x)"
| "shadowing v = False"

text \<open>
  \<^verbatim>\<open>output[key] = v\<close> on the object that the spread has made. Under the name
  \<^verbatim>\<open>__proto__\<close>, unless the object has a property of its own of that name, the assignment
  runs the setter of \<^verbatim>\<open>Object.prototype\<close>: it replaces the prototype of the object (when
  \<open>v\<close> is an object or \<^verbatim>\<open>null\<close>) and creates no property. The result of the merge is
  given by its own properties; its prototype is not recorded.
\<close>

definition assign_prop :: "string \<Rightarrow> jsval \<Rightarrow> props \<Rightarrow> props" where
  "assign_prop key v output =
     (if key = ''__proto__'' \<and> key \<notin> set (map fst output) then output
      else set_prop key v output)"

text \<open>
  The loop is \<open>merge_loop\<close>, over the keys of \<open>obj1\<close> that are still to be visited, with
  \<open>output\<close> as its state; a \<^verbatim>\<open>TypeError\<close> ends it. The recursive call is on a property
  of \<open>obj1\<close>, which is smaller than \<open>obj1\<close>.
\<close>

lemma size_get_prop:
  "truthy (get_prop obj key) \<Longrightarrow> typeof_object (get_prop obj key) \<Longrightarrow>
   size (get_prop obj key) < size obj"
proof (cases obj)
  case (JObj ps)
  show ?thesis
  proof (cases "map_of ps key")
    case None
    then show ?thesis using JObj by (simp add: get_prop_def)
  next
    case (Some v)
    then have "(key, v) \<in> set ps" by (rule map_of_SomeD)
    then have "size_prod (\<lambda>_. 0) size (key, v) \<le> size_list (size_prod (\<lambda>_. 0) size) ps"
      by (rule size_list_estimation') simp
    then show ?thesis using JObj Some by (simp add: get_prop_def)
  qed
next
  case (JArr xs)
  show ?thesis
  proof (cases "map_of (zip (index_keys (length xs)) xs) key")
    case None
    then show ?thesis using JArr by (simp add: get_prop_def)
  next
    case (Some v)
    then have "(key, v) \<in> set (zip (index_keys (length xs)) xs)" by (rule map_of_SomeD)
    then have "v \<in> set xs" by (rule set_zip_rightD)
    then have "size v \<le> size_list size xs"
      by (rule size_list_estimation') simp
    then show ?thesis using JArr Some by (simp add: get_prop_def)
  qed
next
  case (JStr s)
  assume t: "typeof_object (get_prop obj key)"
  have "\<not> typeof_object (get_prop (JStr s) key)"
  proof (cases "map_of (zip (index_keys (length s)) (map (\<lambda>c. JStr [c]) s)) key")
    case None
    then show ?thesis by (simp add: get_prop_def)
  next
    case (Some v)
    then have "(key, v) \<in> set (zip (index_keys (length s)) (map (\<lambda>c. JStr [c]) s))"
      by (rule map_of_SomeD)
    then have "v \<in> set (map (\<lambda>c. JStr [c]) s)" by (rule set_zip_rightD)
    then obtain c where "v = JStr [c]" by auto
    then show ?thesis using Some by (simp add: get_prop_def)
  qed
  then show ?thesis using t JStr by simp
qed (auto simp: get_prop_def split: if_splits)

function deepMergeObjects :: "jsval \<Rightarrow> overlay \<Rightarrow> js_error + jsval"
  and merge_loop :: "jsval \<Rightarrow> overlay \<Rightarrow> props \<Rightarrow> string list \<Rightarrow> js_error + props" where
  "deepMergeObjects obj1 obj2 =
     (if null_or_undefined obj2 then Inr obj1
      else (case merge_loop obj1 obj2 (spread obj2) (own_keys obj1) of
              Inl e \<Rightarrow> Inl e
            | Inr output \<Rightarrow> Inr (JObj output)))"
| "merge_loop obj1 obj2 output [] = Inr output"
| "merge_loop obj1 obj2 output (key # keys) =
     (case call_hasOwnProperty obj1 key of
        Inl e \<Rightarrow> Inl e
      | Inr own \<Rightarrow>
          if own then
            (if truthy (get_prop obj1 key) \<and> typeof_object (get_prop obj1 key)
                \<and> is_object (read_overlay obj2 key)
             then (case deepMergeObjects (get_prop obj1 key) (read_overlay obj2 key) of
                     Inl e \<Rightarrow> Inl e
                   | Inr merged \<Rightarrow> merge_loop obj1 obj2 (assign_prop key merged output) keys)
             else merge_loop obj1 obj2 (assign_prop key (get_prop obj1 key) output) keys)
          else merge_loop obj1 obj2 output keys)"
  by pat_completeness auto
termination
  by (relation "measures [
        (\<lambda>x. case x of Inl (a, b) \<Rightarrow> size a | Inr (a, b, c, d) \<Rightarrow> size a),
        (\<lambda>x. case x of Inl (a, b) \<Rightarrow> Suc (length (own_keys a)) | Inr (a, b, c, d) \<Rightarrow> length d)]")
     (auto simp: size_get_prop)

declare deepMergeObjects.simps [simp del]

section \<open>\<^verbatim>\<open>handleError\<close>\<close>

text \<open>
  \<^verbatim>\<open>
  export function handleError(error: unknown): never {
    if (error instanceof Error) {
      console.error(error.message);
      throw new Error(`Error: ${error.message}`);
    } else if (typeof error === "string") {
      console.error(error);
      throw new Error(`Error: ${error}`);
    } else {
      console.error(error);
      throw new Error(`Unknown error: ${JSON.stringify(error)}`);
    }
  }
  \<close>
  The argument is an instance of \<^verbatim>\<open>Error\<close> (of any subclass, with its name and its
  message) or a plain value. The console is the list of the values logged so far.
\<close>

datatype thrown_value = ErrorInstance string string | PlainValue jsval

type_synonym console = "jsval list"

definition join :: "string \<Rightarrow> string list \<Rightarrow> string" where
  "join sep xs = (case xs of [] \<Rightarrow> [] | y # ys \<Rightarrow> y @ concat (map (\<lambda>z. sep @ z) ys))"

definition hex_lower :: "nat \<Rightarrow> char" where
  "hex_lower d = ''0123456789abcdef'' ! d"

text \<open>The escapes of \<^verbatim>\<open>JSON.stringify\<close> (ECMAScript, QuoteJSONString).\<close>

definition json_escape_char :: "char \<Rightarrow> string" where
  "json_escape_char c =
     (if c = CHR 0x22 then [CHR 0x5C, CHR 0x22]
      else if c = CHR 0x5C then [CHR 0x5C, CHR 0x5C]
      else if c = CHR 0x08 then [CHR 0x5C, CHR ''b'']
      else if c = CHR 0x0C then [CHR 0x5C, CHR ''f'']
      else if c = CHR 0x0A then [CHR 0x5C, CHR ''n'']
      else if c = CHR 0x0D then [CHR 0x5C, CHR ''r'']
      else if c = CHR 0x09 then [CHR 0x5C, CHR ''t'']
      else if (of_char c :: nat) < 32
        then [CHR 0x5C, CHR ''u'', CHR ''0'', CHR ''0'',
              hex_lower ((of_char c :: nat) div 16), hex_lower ((of_char c :: nat) mod 16)]
      else [c])"

definition json_quote :: "string \<Rightarrow> string" where
  "json_quote s = CHR 0x22 # concat (map json_escape_char s) @ [CHR 0x22]"

text \<open>An element of an array: \<^verbatim>\<open>undefined\<close> is written \<^verbatim>\<open>null\<close>.\<close>

definition json_element :: "string option \<Rightarrow> string" where
  "json_element r = (case r of None \<Rightarrow> ''null'' | Some s \<Rightarrow> s)"

text \<open>A property of an object: one whose value is \<^verbatim>\<open>undefined\<close> is left out.\<close>

definition json_property :: "string \<Rightarrow> string option \<Rightarrow> string list" where
  "json_property k r = (case r of None \<Rightarrow> [] | Some s \<Rightarrow> [json_quote k @ '':'' @ s])"

text \<open>
  \<^verbatim>\<open>JSON.stringify(v)\<close>, with no replacer and no indentation. It throws a \<^verbatim>\<open>TypeError\<close>
  when it meets a BigInt, in \<open>v\<close> or anywhere inside \<open>v\<close>; otherwise it returns a string or,
  as \<open>None\<close>, the value \<^verbatim>\<open>undefined\<close>. (It also throws on an object that contains itself;
  a value of the model is a tree.)
\<close>

fun json_stringify :: "jsval \<Rightarrow> js_error + string option"
  and json_elements :: "jsval list \<Rightarrow> js_error + string list"
  and json_properties :: "props \<Rightarrow> js_error + string list" where
  "json_stringify JUndefined = Inr None"
| "json_stringify JNull = Inr (Some ''null'')"
| "json_stringify (JBool b) = Inr (Some (if b then ''true'' else ''false''))"
| "json_stringify (JNum n) = Inr (Some (int_to_string n))"
| "json_stringify (JBigInt n) = Inl TypeError"
| "json_stringify (JStr s) = Inr (Some (json_quote s))"
| "json_stringify (JArr xs) =
     (case json_elements xs of
        Inl e \<Rightarrow> Inl e
      | Inr ss \<Rightarrow> Inr (Some (''['' @ join '','' ss @ '']'')))"
| "json_stringify (JObj ps) =
     (case json_properties ps of
        Inl e \<Rightarrow> Inl e
      | Inr ss \<Rightarrow> Inr (Some (''{'' @ join '','' ss @ ''}'')))"
| "json_elements [] = Inr []"
| "json_elements (x # xs) =
     (case json_stringify x of
        Inl e \<Rightarrow> Inl e
      | Inr r \<Rightarrow> (case json_elements xs of
                   Inl e \<Rightarrow> Inl e
                 | Inr ss \<Rightarrow> Inr (json_element r # ss)))"
| "json_properties [] = Inr []"
| "json_properties (p # ps) =
     (case json_stringify (snd p) of
        Inl e \<Rightarrow> Inl e
      | Inr r \<Rightarrow> (case json_properties ps of
                   Inl e \<Rightarrow> Inl e
                 | Inr ss \<Rightarrow> Inr (json_property (fst p) r @ ss)))"

text \<open>\<open>has_bigint v\<close>: \<open>v\<close> is a BigInt or holds one, at any depth.\<close>

fun has_bigint :: "jsval \<Rightarrow> bool" where
  "has_bigint (JBigInt n) = True"
| "has_bigint (JArr xs) = (\<exists>x \<in> set xs. has_bigint x)"
| "has_bigint (JObj ps) = (\<exists>p \<in> set ps. has_bigint (snd p))"
| "has_bigint v = False"

text \<open>A value of type \<^verbatim>\<open>string | undefined\<close> inside a template literal.\<close>

definition template_string :: "string option \<Rightarrow> string" where
  "template_string r = (case r of None \<Rightarrow> ''undefined'' | Some s \<Rightarrow> s)"

fun is_string :: "jsval \<Rightarrow> bool" where
  "is_string (JStr s) = True"
| "is_string v = False"

text \<open>
  The function returns in no branch. In the last one the template literal is evaluated
  before \<^verbatim>\<open>new Error\<close>: what \<^verbatim>\<open>JSON.stringify\<close> throws leaves the function as it is.
\<close>

fun handleError :: "thrown_value \<Rightarrow> console \<Rightarrow> (js_error + unit) \<times> console" where
  "handleError (ErrorInstance name message) con =
     (Inl (Error (''Error: '' @ message)), con @ [JStr message])"
| "handleError (PlainValue (JStr s)) con =
     (Inl (Error (''Error: '' @ s)), con @ [JStr s])"
| "handleError (PlainValue v) con =
     (case json_stringify v of
        Inl e \<Rightarrow> (Inl e, con @ [v])
      | Inr r \<Rightarrow> (Inl (Error (''Unknown error: '' @ template_string r)), con @ [v]))"

section \<open>\<^verbatim>\<open>shimmer\<close>, \<^verbatim>\<open>toBase64\<close>, \<^verbatim>\<open>getDataUrl\<close>\<close>

text \<open>
  The template literal of \<^verbatim>\<open>shimmer(w, h)\<close>, line by line, with \<^verbatim>\<open>${w}\<close> and \<^verbatim>\<open>${h}\<close>
  as the strings of the two numbers.
\<close>

definition shimmer :: \<open>int \<Rightarrow> int \<Rightarrow> string\<close> where
  \<open>shimmer w h = concat
     [''\<newline>'',
      ''    <svg width="'',
      int_to_string w,
      ''" height="'',
      int_to_string h,
      ''" version="1.1" xmlns="http://www.w3.org/2000/svg" xmlns:xlink="http://www.w3.org/1999/xlink">\<newline>'',
      ''      <defs>\<newline>'',
      ''        <linearGradient id="g">\<newline>'',
      ''          <stop stop-color="#7986AC" offset="20%" />\<newline>'',
      ''          <stop stop-color="#68769e" offset="50%" />\<newline>'',
      ''          <stop stop-color="#7986AC" offset="70%" />\<newline>'',
      ''        </linearGradient>\<newline>'',
      ''      </defs>\<newline>'',
      ''      <rect width="'',
      int_to_string w,
      ''" height="'',
      int_to_string h,
      ''" fill="#7986AC" />\<newline>'',
      ''      <rect id="r" width="'',
      int_to_string w,
      ''" height="'',
      int_to_string h,
      ''" fill="url(#g)" />\<newline>'',
      ''      <animate xlink:href="#r" attributeName="x" from="-'',
      int_to_string w,
      ''" to="'',
      int_to_string w,
      ''" dur="1s" repeatCount="indefinite"  />\<newline>'',
      ''    </svg>'']\<close>

text \<open>
  \<^verbatim>\<open>
  function toBase64(str: string): string {
    if (typeof window === "undefined") {
      return Buffer.from(str).toString("base64");   // Node.js
    } else {
      return window.btoa(str);                      // browser
    }
  }
  \<close>
  The function reads one thing from outside: whether \<^verbatim>\<open>window\<close> is defined.
  \<^verbatim>\<open>Buffer.from(str)\<close> holds the UTF-8 bytes of the string, \<^verbatim>\<open>btoa\<close> takes each code
  unit as one byte (and throws above 255, which no string of this model reaches).
\<close>

datatype runtime = NodeJs | Browser

definition utf8_bytes :: "string \<Rightarrow> nat list" where
  "utf8_bytes s =
     concat (map (\<lambda>c. if (of_char c :: nat) < 128 then [of_char c]
                       else [192 + (of_char c :: nat) div 64, 128 + (of_char c :: nat) mod 64]) s)"

definition latin1_bytes :: "string \<Rightarrow> nat list" where
  "latin1_bytes s = map of_char s"

definition base64_char :: "nat \<Rightarrow> char" where
  "base64_char n = ''ABCDEFGHIJKLMNOPQRSTUVWXYZabcdefghijklmnopqrstuvwxyz0123456789+/'' ! n"

fun base64_encode :: "nat list \<Rightarrow> string" where
  "base64_encode (a # b # c # rest) =
     [base64_char (a div 4), base64_char ((a mod 4) * 16 + b div 16),
      base64_char ((b mod 16) * 4 + c div 64), base64_char (c mod 64)] @ base64_encode rest"
| "base64_encode [a, b] =
     [base64_char (a div 4), base64_char ((a mod 4) * 16 + b div 16),
      base64_char ((b mod 16) * 4), CHR ''='']"
| "base64_encode [a] = [base64_char (a div 4), base64_char ((a mod 4) * 16), CHR ''='', CHR ''='']"
| "base64_encode [] = []"

text \<open>A string of code units below 128.\<close>

definition ascii :: "string \<Rightarrow> bool" where
  "ascii s = list_all (\<lambda>c. (of_char c :: nat) < 128) s"

definition toBase64 :: "runtime \<Rightarrow> string \<Rightarrow> string" where
  "toBase64 env str =
     (case env of
        NodeJs \<Rightarrow> base64_encode (utf8_bytes str)
      | Browser \<Rightarrow> base64_encode (latin1_bytes str))"

definition getDataUrl :: "runtime \<Rightarrow> string" where
  "getDataUrl env = ''data:image/svg+xml;base64,'' @ toBase64 env (shimmer 1000 1000)"

text \<open>\<^verbatim>\<open>export const dataUrl: string = getDataUrl();\<close>, computed once when the module loads.\<close>

definition dataUrl :: "runtime \<Rightarrow> string" where
  "dataUrl env = getDataUrl env"

section \<open>\<^verbatim>\<open>download\<close>\<close>

text \<open>
  \<^verbatim>\<open>
  export function download(url: string, filename?: string): void {
    if (!url) {
      throw new Error("Resource URL not provided! You need to provide one");
    }
    fetch(url)
      .then((response) => response.blob())
      .then((blob) => {
        const blobURL = URL.createObjectURL(blob);
        const a = document.createElement("a");
        a.href = blobURL;
        if (filename && filename.length) {
          a.download = `${filename.replace(" ", "_")}.png`;
        }
        document.body.appendChild(a);
        a.click();
      })
      .catch((error) => console.log({ error }));
  }
  \<close>
  The call itself either throws or starts the fetch and returns; the callbacks run when
  the fetch has settled. \<open>download\<close> is the call, \<open>download_settled\<close> the callbacks. The
  page records the requests started, the anchors appended to the body, the anchors
  clicked and the console.
\<close>

record anchor =
  href :: string
  download_attr :: "string option"

record page =
  fetches :: "string list"
  body :: "anchor list"
  clicked :: "anchor list"
  logged :: console

text \<open>
  How the fetch settles: the request fails, reading the body fails, or the blob arrives;
  \<^verbatim>\<open>URL.createObjectURL\<close> then names it by a URL of the browser's choice.
\<close>

datatype fetch_outcome = FetchRejected jsval | BlobRejected jsval | BlobReady string

text \<open>\<^verbatim>\<open>s.replace(a, b)\<close> for one-character strings: only the first \<open>a\<close> is replaced.\<close>

fun replace_first :: "char \<Rightarrow> char \<Rightarrow> string \<Rightarrow> string" where
  "replace_first a b [] = []"
| "replace_first a b (c # cs) = (if c = a then b # cs else c # replace_first a b cs)"

definition download :: "string \<Rightarrow> string option \<Rightarrow> page \<Rightarrow> (js_error + unit) \<times> page" where
  "download url filename pg =
     (if url = [] then (Inl (Error ''Resource URL not provided! You need to provide one''), pg)
      else (Inr (), pg\<lparr>fetches := fetches pg @ [url]\<rparr>))"

definition make_anchor :: "string option \<Rightarrow> string \<Rightarrow> anchor" where
  "make_anchor filename blobURL =
     \<lparr>href = blobURL,
      download_attr =
        (case filename of
           None \<Rightarrow> None
         | Some f \<Rightarrow> if f \<noteq> [] then Some (replace_first CHR '' '' CHR ''_'' f @ ''.png'') else None)\<rparr>"

definition download_settled :: "string option \<Rightarrow> fetch_outcome \<Rightarrow> page \<Rightarrow> page" where
  "download_settled filename outcome pg =
     (case outcome of
        FetchRejected e \<Rightarrow> pg\<lparr>logged := logged pg @ [JObj [(''error'', e)]]\<rparr>
      | BlobRejected e \<Rightarrow> pg\<lparr>logged := logged pg @ [JObj [(''error'', e)]]\<rparr>
      | BlobReady blobURL \<Rightarrow>
          pg\<lparr>body := body pg @ [make_anchor filename blobURL],
             clicked := clicked pg @ [make_anchor filename blobURL]\<rparr>)"

text \<open>The page before anything has happened on it.\<close>

definition empty_page :: page where
  "empty_page = \<lparr>fetches = [], body = [], clicked = [], logged = []\<rparr>"

section \<open>\<^verbatim>\<open>debounce\<close>\<close>

text \<open>
  \<^verbatim>\<open>
  export function debounce(func: (...args: any[]) => void, delay: number): Function {
    let timeoutId: NodeJS.Timeout | null;
    return (...args: any[]) => {
      if (timeoutId) clearTimeout(timeoutId);
      timeoutId = setTimeout(() => func.apply(null, args), delay);
    };
  }
  \<close>
  The state of one debounced function: the clock (in milliseconds), the timeouts that are
  pending, the next handle that \<^verbatim>\<open>setTimeout\<close> will hand out, the variable
  \<^verbatim>\<open>timeoutId\<close> of the closure (\<open>None\<close> while it is still \<^verbatim>\<open>undefined\<close>), and the
  argument lists with which \<^verbatim>\<open>func\<close> has been called so far. A pending timeout holds the
  arguments that its callback will pass to \<^verbatim>\<open>func\<close>. Handles are never reused, and every
  handle is truthy (a positive integer in a browser, an object in Node.js), so
  \<^verbatim>\<open>if (timeoutId)\<close> asks whether the variable has been assigned.
\<close>

record 'a timer =
  timer_id :: nat
  fires_at :: nat
  timer_args :: 'a

record 'a debounce_state =
  clock :: nat
  timers :: "'a timer list"
  next_id :: nat
  timeoutId :: "nat option"
  calls :: "'a list"

text \<open>\<^verbatim>\<open>debounce(func, delay)\<close>: the state of the function it returns, before any call.\<close>

definition debounce :: "'a debounce_state" where
  "debounce = \<lparr>clock = 0, timers = [], next_id = 1, timeoutId = None, calls = []\<rparr>"

definition clearTimeout :: "nat \<Rightarrow> 'a debounce_state \<Rightarrow> 'a debounce_state" where
  "clearTimeout i st = st\<lparr>timers := filter (\<lambda>t. timer_id t \<noteq> i) (timers st)\<rparr>"

definition setTimeout :: "'a \<Rightarrow> nat \<Rightarrow> 'a debounce_state \<Rightarrow> nat \<times> 'a debounce_state" where
  "setTimeout args delay st =
     (next_id st,
      st\<lparr>timers := timers st @ [\<lparr>timer_id = next_id st, fires_at = clock st + delay, timer_args = args\<rparr>],
         next_id := Suc (next_id st)\<rparr>)"

text \<open>One call of the debounced function with the arguments \<open>args\<close>.\<close>

definition debounced :: "nat \<Rightarrow> 'a \<Rightarrow> 'a debounce_state \<Rightarrow> 'a debounce_state" where
  "debounced delay args st =
     (let st1 = (case timeoutId st of Some i \<Rightarrow> clearTimeout i st | None \<Rightarrow> st);
          (i, st2) = setTimeout args delay st1
      in st2\<lparr>timeoutId := Some i\<rparr>)"

text \<open>
  Time passes: the clock moves on by \<open>dt\<close> and every timeout that has become due fires, the
  earliest first; its callback calls \<^verbatim>\<open>func\<close> with the arguments it holds. Timeouts fire
  as soon as they are due.
\<close>

definition advance :: "nat \<Rightarrow> 'a debounce_state \<Rightarrow> 'a debounce_state" where
  "advance dt st =
     st\<lparr>clock := clock st + dt,
        timers := filter (\<lambda>t. \<not> fires_at t \<le> clock st + dt) (timers st),
        calls := calls st
          @ map timer_args (sort_key fires_at (filter (\<lambda>t. fires_at t \<le> clock st + dt) (timers st)))\<rparr>"

datatype 'a event = Call 'a | Wait nat

fun step :: "nat \<Rightarrow> 'a debounce_state \<Rightarrow> 'a event \<Rightarrow> 'a debounce_state" where
  "step delay st (Call args) = debounced delay args st"
| "step delay st (Wait dt) = advance dt st"

definition run :: "nat \<Rightarrow> 'a event list \<Rightarrow> 'a debounce_state" where
  "run delay evs = foldl (step delay) debounce evs"

text \<open>
  What holds of every state that a run reaches: no timeout is pending, or one is and
  \<^verbatim>\<open>timeoutId\<close> holds its handle.
\<close>

definition one_pending :: "'a debounce_state \<Rightarrow> bool" where
  "one_pending st =
     (case timers st of
        [] \<Rightarrow> True
      | [t] \<Rightarrow> timeoutId st = Some (timer_id t)
      | _ \<Rightarrow> False)"

text \<open>
  A burst of calls: a first call, then further calls, each after a pause. \<open>pending_call\<close>
  says that exactly one timeout is pending, set by a call at the present time with the
  arguments \<open>a\<close>.
\<close>

definition burst :: "'a \<Rightarrow> (nat \<times> 'a) list \<Rightarrow> 'a event list" where
  "burst a0 gaps = Call a0 # concat (map (\<lambda>g. [Wait (fst g), Call (snd g)]) gaps)"

definition pending_call :: "'a debounce_state \<Rightarrow> nat \<Rightarrow> 'a \<Rightarrow> bool" where
  "pending_call st delay a =
     (case timers st of
        [t] \<Rightarrow> fires_at t = clock st + delay \<and> timer_args t = a \<and> timeoutId st = Some (timer_id t)
      | _ \<Rightarrow> False)"

section \<open>\<^verbatim>\<open>formUrlQuery\<close> and \<^verbatim>\<open>removeKeysFromQuery\<close>\<close>

subsection \<open>The query-string library\<close>

text \<open>
  Both functions call \<^verbatim>\<open>qs.parse\<close> and \<^verbatim>\<open>qs.stringify\<close> of the package \<^verbatim>\<open>qs\<close>, a
  dependency whose code is not among the sources.
\<close>

fun split_on :: "char \<Rightarrow> string \<Rightarrow> string list" where
  "split_on d [] = [[]]"
| "split_on d (c # cs) =
     (if c = d then [] # split_on d cs
      else (case split_on d cs of w # ws \<Rightarrow> (c # w) # ws | [] \<Rightarrow> [[c]]))"

text \<open>A part \<^verbatim>\<open>key=value\<close> of a query string: the key ends at the first \<^verbatim>\<open>=\<close>.\<close>

definition part_key :: "string \<Rightarrow> string" where
  "part_key part = takeWhile (\<lambda>c. c \<noteq> CHR ''='') part"

definition part_value :: "string \<Rightarrow> string" where
  "part_value part = drop (Suc (length (part_key part))) part"

definition query_parts :: "string \<Rightarrow> (string \<times> string) list" where
  "query_parts s = map (\<lambda>part. (part_key part, part_value part)) (split_on CHR ''&'' s)"

text \<open>The keys of a query string, in the order of the string.\<close>

definition query_keys :: "string \<Rightarrow> string list" where
  "query_keys s = map fst (query_parts s)"

text \<open>A key that comes again: the values are collected in an array.\<close>

fun combine :: "jsval \<Rightarrow> jsval \<Rightarrow> jsval" where
  "combine (JArr xs) v = JArr (xs @ [v])"
| "combine u v = JArr [u, v]"

definition parse_step :: "props \<Rightarrow> string \<times> string \<Rightarrow> props" where
  "parse_step obj kv =
     (if fst kv = [] then obj
      else (case map_of obj (fst kv) of
              None \<Rightarrow> set_prop (fst kv) (JStr (snd kv)) obj
            | Some old \<Rightarrow> set_prop (fst kv) (combine old (JStr (snd kv))) obj))"

text \<open>
  Modelled from the spec: \<^verbatim>\<open>qs.parse\<close>, which is missing from the sources. The spec has
  it parse the "standard \<^verbatim>\<open>key=value&key2=value2\<close> encoding" into a "mapping from string
  keys to string values": the parts are read from left to right and each is assigned to the
  parsed object under its key; a part without a key is dropped. The parsed mapping is a
  JavaScript object, so it enumerates its keys as every object does. The library's
  decoding of \<^verbatim>\<open>%\<close> and \<^verbatim>\<open>+\<close>, its bracket notation for nested values, its limit on the
  number of parts and its refusal of the names of \<^verbatim>\<open>Object.prototype\<close> are not modelled.
\<close>

definition qs_parse :: "string \<Rightarrow> props" where
  "qs_parse s = foldl parse_step [] (query_parts s)"

definition unreserved :: "char \<Rightarrow> bool" where
  "unreserved c =
     (c \<in> set ''ABCDEFGHIJKLMNOPQRSTUVWXYZabcdefghijklmnopqrstuvwxyz0123456789-._~'')"

definition hex_upper :: "nat \<Rightarrow> char" where
  "hex_upper d = ''0123456789ABCDEF'' ! d"

definition percent_byte :: "nat \<Rightarrow> string" where
  "percent_byte b = [CHR ''%'', hex_upper (b div 16), hex_upper (b mod 16)]"

text \<open>Percent-encoding (RFC 3986): unreserved characters stay, the others give their bytes.\<close>

definition qs_encode :: "string \<Rightarrow> string" where
  "qs_encode s =
     concat (map (\<lambda>c. if unreserved c then [c] else concat (map percent_byte (utf8_bytes [c]))) s)"

text \<open>
  The pairs that a value gives under the name \<open>prefix\<close>: one pair for a string, a number,
  a BigInt, a boolean or \<^verbatim>\<open>null\<close> (none for \<^verbatim>\<open>null\<close> with \<^verbatim>\<open>skipNulls\<close>), none for
  \<^verbatim>\<open>undefined\<close>, and those of the elements or properties, under \<^verbatim>\<open>prefix[index]\<close> or
  \<^verbatim>\<open>prefix[name]\<close>, for an array or an object.
\<close>

fun qs_value :: "bool \<Rightarrow> string \<Rightarrow> jsval \<Rightarrow> string list"
  and qs_elements :: "bool \<Rightarrow> string \<Rightarrow> nat \<Rightarrow> jsval list \<Rightarrow> string list"
  and qs_properties :: "bool \<Rightarrow> string \<Rightarrow> props \<Rightarrow> string list" where
  "qs_value skipNulls prefix JUndefined = []"
| "qs_value skipNulls prefix JNull = (if skipNulls then [] else [qs_encode prefix @ ''=''])"
| "qs_value skipNulls prefix (JBool b) =
     [qs_encode prefix @ ''='' @ (if b then ''true'' else ''false'')]"
| "qs_value skipNulls prefix (JNum n) = [qs_encode prefix @ ''='' @ qs_encode (int_to_string n)]"
| "qs_value skipNulls prefix (JBigInt n) =
     [qs_encode prefix @ ''='' @ qs_encode (bigint_to_string n)]"
| "qs_value skipNulls prefix (JStr s) = [qs_encode prefix @ ''='' @ qs_encode s]"
| "qs_value skipNulls prefix (JArr xs) = qs_elements skipNulls prefix 0 xs"
| "qs_value skipNulls prefix (JObj ps) = qs_properties skipNulls prefix ps"
| "qs_elements skipNulls prefix i [] = []"
| "qs_elements skipNulls prefix i (x # xs) =
     qs_value skipNulls (prefix @ ''['' @ nat_to_string i @ '']'') x
       @ qs_elements skipNulls prefix (Suc i) xs"
| "qs_properties skipNulls prefix [] = []"
| "qs_properties skipNulls prefix (p # ps) =
     qs_value skipNulls (prefix @ ''['' @ fst p @ '']'') (snd p)
       @ qs_properties skipNulls prefix ps"

text \<open>
  Modelled from the spec: \<^verbatim>\<open>qs.stringify\<close>, which is missing from the sources. It
  "re-serializes" the mapping key by key, in the order in which the object enumerates its
  keys, joins the pairs by \<^verbatim>\<open>&\<close>, omits a key whose value is \<^verbatim>\<open>undefined\<close> and, with the
  option \<^verbatim>\<open>skipNulls\<close>, a key whose value is \<^verbatim>\<open>null\<close>.
\<close>

definition qs_stringify :: "bool \<Rightarrow> props \<Rightarrow> string" where
  "qs_stringify skipNulls obj =
     join ''&'' (concat (map (\<lambda>p. qs_value skipNulls (fst p) (snd p)) obj))"

subsection \<open>The two functions\<close>

text \<open>
  \<^verbatim>\<open>
  export function formUrlQuery({ searchParams, key, value }: FormUrlQueryParams): string {
    const params = { ...qs.parse(searchParams.toString()), [key]: value };
    return `${window.location.pathname}?${qs.stringify(params, { skipNulls: true })}`;
  }
  \<close>
  \<^verbatim>\<open>window.location.pathname\<close> is the argument \<open>pathname\<close>.
\<close>

definition formUrlQuery :: "string \<Rightarrow> string \<Rightarrow> string \<Rightarrow> jsval \<Rightarrow> string" where
  "formUrlQuery pathname searchParams key v =
     (let params = set_prop key v (qs_parse searchParams)
      in pathname @ ''?'' @ qs_stringify True params)"

text \<open>
  \<^verbatim>\<open>
  export function removeKeysFromQuery({ searchParams, keysToRemove }: RemoveUrlQueryParams): string {
    const currentUrl = qs.parse(searchParams);
    keysToRemove.forEach((key) => { delete currentUrl[key]; });
    Object.keys(currentUrl).forEach(
      (key) => currentUrl[key] == null && delete currentUrl[key]
    );
    return `${window.location.pathname}?${qs.stringify(currentUrl)}`;
  }
  \<close>
\<close>

text \<open>\<^verbatim>\<open>v == null\<close>.\<close>

definition nullish :: "jsval \<Rightarrow> bool" where
  "nullish v = (v = JNull \<or> v = JUndefined)"

definition remove_keys :: "string list \<Rightarrow> props \<Rightarrow> props" where
  "remove_keys keysToRemove currentUrl = foldl (\<lambda>cur key. delete_prop key cur) currentUrl keysToRemove"

definition remove_nullish :: "props \<Rightarrow> props" where
  "remove_nullish currentUrl =
     foldl (\<lambda>cur key. if nullish (get_prop (JObj cur) key) then delete_prop key cur else cur)
       currentUrl (own_keys (JObj currentUrl))"

definition removeKeysFromQuery :: "string \<Rightarrow> string \<Rightarrow> string list \<Rightarrow> string" where
  "removeKeysFromQuery pathname searchParams keysToRemove =
     (let currentUrl = remove_nullish (remove_keys keysToRemove (qs_parse searchParams))
      in pathname @ ''?'' @ qs_stringify False currentUrl)"

text \<open>The elements of a list without repetitions, each at its first place.\<close>

definition first_occurrences :: "'a list \<Rightarrow> 'a list" where
  "first_occurrences xs = foldl (\<lambda>acc x. if x \<in> set acc then acc else acc @ [x]) [] xs"

chapter \<open>Properties\<close>

lemmas js_eval = array_index_def is_digit_def digits_value_def nat_to_string.simps digit_char_def
  int_to_string_def get_prop_def set_prop_def delete_prop_def own_keys_def index_keys_def
  has_own_property_def ordered_keys_def key_before_def

section \<open>Property names and decimal strings\<close>

lemmas number_eval = int_to_string_def number_digits_def exponent_form_def strip_zeros_def
  shortest_digits.simps to_double_def bit_length.simps nat_to_string.simps digit_char_def Let_def

text \<open>A number of 22 digits or more is written in exponent form.\<close>

lemma int_to_string_examples:
  "int_to_string 1000 = ''1000''"
  "int_to_string (- 42) = ''-42''"
  "int_to_string 1000000000000000000000 = ''1e+21''"
  by (simp_all add: number_eval)
lemma digits_value_snoc:
  "digits_value (s @ [c]) = 10 * digits_value s + ((of_char c :: nat) - 48)"
  by (simp add: digits_value_def)

lemma of_char_digit_char: "d < 10 \<Longrightarrow> (of_char (digit_char d) :: nat) = 48 + d"
proof -
  have "\<forall>d \<in> set [0..<10]. (of_char (digit_char d) :: nat) = 48 + d"
    by (simp add: digit_char_def upt_rec)
  then show "d < 10 \<Longrightarrow> (of_char (digit_char d) :: nat) = 48 + d" by simp
qed

lemma digits_value_nat_to_string: "digits_value (nat_to_string n) = n"
proof (induction n rule: nat_to_string.induct)
  case (1 n)
  show ?case
  proof (cases "n < 10")
    case True
    then show ?thesis
      by (simp add: nat_to_string.simps [of n] digits_value_def of_char_digit_char)
  next
    case False
    then have "digits_value (nat_to_string (n div 10)) = n div 10" by (rule 1)
    then show ?thesis using False
      by (simp add: nat_to_string.simps [of n] digits_value_snoc of_char_digit_char)
  qed
qed

lemma nat_to_string_inj: "nat_to_string a = nat_to_string b \<Longrightarrow> a = b"
  by (metis digits_value_nat_to_string)

lemma length_index_keys: "length (index_keys n) = n"
  by (simp add: index_keys_def)

lemma nth_index_keys: "i < n \<Longrightarrow> index_keys n ! i = nat_to_string i"
  by (simp add: index_keys_def)

lemma distinct_index_keys: "distinct (index_keys n)"
  by (auto simp: index_keys_def distinct_map inj_on_def dest: nat_to_string_inj)

lemma index_keys_mem: "nat_to_string i \<in> set (index_keys n) \<longleftrightarrow> i < n"
  by (auto simp: index_keys_def dest: nat_to_string_inj)

lemma map_of_index_props:
  assumes "i < length xs"
  shows "map_of (zip (index_keys (length xs)) xs) (nat_to_string i) = Some (xs ! i)"
proof -
  have "map_of (zip (index_keys (length xs)) xs) (index_keys (length xs) ! i) = Some (xs ! i)"
    using assms by (intro map_of_zip_nth) (simp_all add: length_index_keys distinct_index_keys)
  then show ?thesis using assms by (simp add: nth_index_keys)
qed

section \<open>Reading and writing properties\<close>

lemma map_of_update_prop:
  "map_of (update_prop k v ps) k' =
     (if k' = k \<and> map_of ps k \<noteq> None then Some v else map_of ps k')"
  by (induction ps) auto

lemma map_of_insert_index:
  "k \<notin> fst ` set ps \<Longrightarrow>
   map_of (insert_index i k v ps) k' = (if k' = k then Some v else map_of ps k')"
  by (induction ps) (auto split: option.splits)

lemma map_of_append_new:
  "map_of ps k = None \<Longrightarrow>
   map_of (ps @ [(k, v)]) k' = (if k' = k then Some v else map_of ps k')"
  by (cases "map_of ps k'") (auto simp: map_add_def)

text \<open>An assignment changes the value under its key and under no other.\<close>

lemma map_of_set_prop:
  "map_of (set_prop k v ps) k' = (if k' = k then Some v else map_of ps k')"
proof (cases "k \<in> set (map fst ps)")
  case True
  then have "map_of ps k \<noteq> None" by (simp add: map_of_eq_None_iff)
  then show ?thesis using True by (simp add: set_prop_def map_of_update_prop)
next
  case False
  then have n: "map_of ps k = None" by (simp add: map_of_eq_None_iff)
  show ?thesis
  proof (cases "array_index k")
    case None
    then show ?thesis using False n
      by (simp add: set_prop_def map_of_append_new del: map_of_append)
  next
    case (Some i)
    then show ?thesis using False by (simp add: set_prop_def map_of_insert_index)
  qed
qed

lemma insert_index_append:
  "\<forall>p \<in> set ps. \<exists>j. array_index (fst p) = Some j \<and> j < i \<Longrightarrow>
   insert_index i k v ps = ps @ [(k, v)]"
  by (induction ps) auto

text \<open>A new property that every present one precedes goes last.\<close>

lemma set_prop_append:
  assumes "k \<notin> set (map fst ps)" and "\<forall>p \<in> set ps. key_before (fst p) k"
  shows "set_prop k v ps = ps @ [(k, v)]"
proof (cases "array_index k")
  case None
  then show ?thesis using assms by (simp add: set_prop_def)
next
  case (Some i)
  have "\<forall>p \<in> set ps. \<exists>j. array_index (fst p) = Some j \<and> j < i"
    using assms(2) Some by (auto simp: key_before_def split: option.splits)
  then have "insert_index i k v ps = ps @ [(k, v)]" by (rule insert_index_append)
  then show ?thesis using assms(1) Some by (simp add: set_prop_def)
qed

lemma get_prop_empty: "get_prop (JObj []) k = JUndefined"
  by (simp add: get_prop_def)

lemma get_prop_distinct:
  "distinct (map fst ps) \<Longrightarrow> (k, v) \<in> set ps \<Longrightarrow> get_prop (JObj ps) k = v"
  by (simp add: get_prop_def)

lemma get_prop_JObj_Some: "map_of ps k = Some v \<Longrightarrow> get_prop (JObj ps) k = v"
  by (simp add: get_prop_def)

lemma key_in_own_keys: "map_of ps k = Some v \<Longrightarrow> k \<in> set (own_keys (JObj ps))"
  by (auto simp: own_keys_def dest: map_of_SomeD intro: rev_image_eqI)

lemma key_not_in_own_keys: "map_of ps k = None \<Longrightarrow> k \<notin> set (own_keys (JObj ps))"
  by (simp add: own_keys_def map_of_eq_None_iff)

section \<open>The deep merge\<close>

lemmas merge_eval = deepMergeObjects.simps call_hasOwnProperty_def assign_prop_def

text \<open>
  The assignment of the loop leaves the other keys as they are, and it stores the value
  unless the key is \<^verbatim>\<open>__proto__\<close> and \<open>output\<close> has no such key.
\<close>

lemma assign_prop_other:
  "k' \<noteq> key \<Longrightarrow> map_of (assign_prop key v out) k' = map_of out k'"
  by (simp add: assign_prop_def map_of_set_prop)

lemma assign_prop_same:
  "key \<noteq> ''__proto__'' \<or> key \<in> fst ` set out \<Longrightarrow>
   map_of (assign_prop key v out) key = Some v"
  by (auto simp: assign_prop_def map_of_set_prop)

lemma keys_assign_prop:
  "k \<in> fst ` set out \<Longrightarrow> k \<in> fst ` set (assign_prop key v out)"
proof -
  assume "k \<in> fst ` set out"
  then have "map_of out k \<noteq> None" by (simp add: map_of_eq_None_iff)
  then have "map_of (assign_prop key v out) k \<noteq> None"
    by (auto simp: assign_prop_def map_of_set_prop)
  then show ?thesis by (simp add: map_of_eq_None_iff)
qed

lemma merge_loop_other:
  "merge_loop obj1 obj2 out ks = Inr out' \<Longrightarrow> k \<notin> set ks \<Longrightarrow> map_of out' k = map_of out k"
proof (induction ks arbitrary: out)
  case Nil
  then show ?case by simp
next
  case (Cons key keys)
  then show ?case
    by (auto split: sum.splits if_splits simp: assign_prop_other)
qed

lemma merge_loop_lookup:
  "merge_loop obj1 obj2 out ks = Inr out' \<Longrightarrow> k \<in> set ks \<Longrightarrow>
   has_own_property obj1 k \<Longrightarrow> k \<noteq> ''__proto__'' \<or> k \<in> fst ` set out \<Longrightarrow>
   (if truthy (get_prop obj1 k) \<and> typeof_object (get_prop obj1 k)
       \<and> is_object (read_overlay obj2 k)
    then \<exists>m. deepMergeObjects (get_prop obj1 k) (read_overlay obj2 k) = Inr m
           \<and> map_of out' k = Some m
    else map_of out' k = Some (get_prop obj1 k))"
proof (induction ks arbitrary: out)
  case Nil
  then show ?case by simp
next
  case (Cons key keys)
  let ?goal = "if truthy (get_prop obj1 k) \<and> typeof_object (get_prop obj1 k)
       \<and> is_object (read_overlay obj2 k)
    then \<exists>m. deepMergeObjects (get_prop obj1 k) (read_overlay obj2 k) = Inr m
           \<and> map_of out' k = Some m
    else map_of out' k = Some (get_prop obj1 k)"
  have later: ?goal
    if "merge_loop obj1 obj2 out1 keys = Inr out'" "k \<in> set keys"
       "k \<noteq> ''__proto__'' \<or> k \<in> fst ` set out1" for out1
    using that Cons.prems(3) by (intro Cons.IH)
  have last: "map_of out' k = map_of out1 k"
    if "merge_loop obj1 obj2 out1 keys = Inr out'" "k \<notin> set keys" for out1
    using that by (rule merge_loop_other)
  have keep: "k \<noteq> ''__proto__'' \<or> k \<in> fst ` set (assign_prop key v out)" for v
    using Cons.prems(4) keys_assign_prop by blast
  obtain own where call: "call_hasOwnProperty obj1 key = Inr own"
    using Cons.prems(1) by (cases "call_hasOwnProperty obj1 key") simp_all
  then have own: "own = has_own_property obj1 key"
    by (simp add: call_hasOwnProperty_def split: if_splits)
  show ?case
  proof (cases "key = k")
    case False
    then have k: "k \<in> set keys" using Cons.prems(2) by simp
    consider (skip) "merge_loop obj1 obj2 out keys = Inr out'"
      | (assign) v where "merge_loop obj1 obj2 (assign_prop key v out) keys = Inr out'"
      using Cons.prems(1) call by (auto split: sum.splits if_splits)
    then show ?thesis
    proof cases
      case skip
      then show ?thesis using k Cons.prems(4) by (rule later)
    next
      case assign
      then show ?thesis using k keep by (rule later)
    qed
  next
    case True
    have o: own using own True Cons.prems(3) by simp
    show ?thesis
    proof (cases "truthy (get_prop obj1 k) \<and> typeof_object (get_prop obj1 k)
       \<and> is_object (read_overlay obj2 k)")
      case both: True
      then obtain m where m: "deepMergeObjects (get_prop obj1 k) (read_overlay obj2 k) = Inr m"
        and rest: "merge_loop obj1 obj2 (assign_prop k m out) keys = Inr out'"
        using Cons.prems(1) call o True by (auto split: sum.splits)
      show ?thesis
      proof (cases "k \<in> set keys")
        case True
        show ?thesis using rest True keep \<open>key = k\<close> by (intro later) auto
      next
        case False
        have "map_of out' k = map_of (assign_prop k m out) k" using rest False by (rule last)
        also have "\<dots> = Some m" using Cons.prems(4) by (rule assign_prop_same)
        finally show ?thesis using both m by simp
      qed
    next
      case neither: False
      then have rest: "merge_loop obj1 obj2 (assign_prop k (get_prop obj1 k) out) keys = Inr out'"
        using Cons.prems(1) call o True by (auto split: sum.splits)
      show ?thesis
      proof (cases "k \<in> set keys")
        case True
        show ?thesis using rest True keep \<open>key = k\<close> by (intro later) auto
      next
        case False
        have "map_of out' k = map_of (assign_prop k (get_prop obj1 k) out) k"
          using rest False by (rule last)
        also have "\<dots> = Some (get_prop obj1 k)" using Cons.prems(4) by (rule assign_prop_same)
        finally show ?thesis by (simp only: neither if_False)
      qed
    qed
  qed
qed

text \<open>What a merge that returns holds under each key.\<close>

lemma deepMerge_lookup:
  assumes "deepMergeObjects obj1 obj2 = Inr r" and "\<not> null_or_undefined obj2"
    and "has_own_property obj1 k" and "k \<noteq> ''__proto__'' \<or> k \<in> fst ` set (spread obj2)"
  shows "if truthy (get_prop obj1 k) \<and> typeof_object (get_prop obj1 k)
            \<and> is_object (read_overlay obj2 k)
         then \<exists>m. deepMergeObjects (get_prop obj1 k) (read_overlay obj2 k) = Inr m
                \<and> map_of (own_props r) k = Some m
         else map_of (own_props r) k = Some (get_prop obj1 k)"
proof -
  obtain out where out: "merge_loop obj1 obj2 (spread obj2) (own_keys obj1) = Inr out"
    and r: "r = JObj out"
    using assms(1,2) by (auto simp: deepMergeObjects.simps split: sum.splits)
  have "k \<in> set (own_keys obj1)" using assms(3) by (simp add: has_own_property_def)
  with out have "if truthy (get_prop obj1 k) \<and> typeof_object (get_prop obj1 k)
            \<and> is_object (read_overlay obj2 k)
         then \<exists>m. deepMergeObjects (get_prop obj1 k) (read_overlay obj2 k) = Inr m
                \<and> map_of out k = Some m
         else map_of out k = Some (get_prop obj1 k)"
    using assms(3,4) by (rule merge_loop_lookup)
  then show ?thesis using r by simp
qed

lemma deepMerge_other:
  assumes "deepMergeObjects obj1 obj2 = Inr r" and "\<not> null_or_undefined obj2"
    and "\<not> has_own_property obj1 k"
  shows "map_of (own_props r) k = map_of (spread obj2) k"
proof -
  obtain out where out: "merge_loop obj1 obj2 (spread obj2) (own_keys obj1) = Inr out"
    and r: "r = JObj out"
    using assms(1,2) by (auto simp: deepMergeObjects.simps split: sum.splits)
  have "k \<notin> set (own_keys obj1)" using assms(3) by (simp add: has_own_property_def)
  with out have "map_of out k = map_of (spread obj2) k" by (rule merge_loop_other)
  then show ?thesis using r by simp
qed

lemma deepMerge_result_object:
  "deepMergeObjects obj1 obj2 = Inr r \<Longrightarrow> \<not> null_or_undefined obj2 \<Longrightarrow> \<exists>ps. r = JObj ps"
  by (auto simp: deepMergeObjects.simps split: sum.splits)

text \<open>Base wins where it holds a scalar, and the keys of the overlay alone pass through.\<close>

lemma deepMerge_base_wins:
  assumes "deepMergeObjects (JObj base) (Plain (JObj overlay)) = Inr r"
    and "map_of base k = Some v1" and "map_of overlay k = Some v2" and "scalar v1"
  shows "map_of (own_props r) k = Some v1"
proof -
  have g: "get_prop (JObj base) k = v1" using assms(2) by (rule get_prop_JObj_Some)
  have own: "has_own_property (JObj base) k"
    using assms(2) by (simp add: has_own_property_def key_in_own_keys)
  have "k \<in> fst ` set overlay" using assms(3) by (metis map_of_eq_None_iff option.distinct(1))
  then have p: "k \<noteq> ''__proto__'' \<or> k \<in> fst ` set (spread (Plain (JObj overlay)))" by simp
  have c: "\<not> (truthy (get_prop (JObj base) k) \<and> typeof_object (get_prop (JObj base) k)
           \<and> is_object (read_overlay (Plain (JObj overlay)) k))"
    using assms(4) g by (cases v1) simp_all
  have nn: "\<not> null_or_undefined (Plain (JObj overlay))" by simp
  have "map_of (own_props r) k = Some (get_prop (JObj base) k)"
    using deepMerge_lookup [OF assms(1) nn own p] by (simp only: c if_False)
  then show ?thesis using g by simp
qed

lemma deepMerge_overlay_only:
  assumes "deepMergeObjects (JObj base) (Plain (JObj overlay)) = Inr r"
    and "map_of base k = None"
  shows "map_of (own_props r) k = map_of overlay k"
proof -
  have "\<not> has_own_property (JObj base) k"
    using assms(2) by (simp add: has_own_property_def key_not_in_own_keys)
  then show ?thesis using deepMerge_other [OF assms(1)] by simp
qed

text \<open>Two arrays under one key never give an array.\<close>

lemma deepMerge_arrays_to_object:
  assumes "deepMergeObjects (JObj base) (Plain (JObj overlay)) = Inr r"
    and "map_of base k = Some (JArr xs)" and "map_of overlay k = Some (JArr ys)"
  shows "\<exists>ps. map_of (own_props r) k = Some (JObj ps)
           \<and> deepMergeObjects (JArr xs) (Plain (JArr ys)) = Inr (JObj ps)"
proof -
  have g: "get_prop (JObj base) k = JArr xs" using assms(2) by (rule get_prop_JObj_Some)
  have own: "has_own_property (JObj base) k"
    using assms(2) by (simp add: has_own_property_def key_in_own_keys)
  have "k \<in> fst ` set overlay" using assms(3) by (metis map_of_eq_None_iff option.distinct(1))
  then have p: "k \<noteq> ''__proto__'' \<or> k \<in> fst ` set (spread (Plain (JObj overlay)))" by simp
  have rd: "read_overlay (Plain (JObj overlay)) k = Plain (JArr ys)" using assms(3) by simp
  have nn: "\<not> null_or_undefined (Plain (JObj overlay))" by simp
  have c: "truthy (get_prop (JObj base) k) \<and> typeof_object (get_prop (JObj base) k)
           \<and> is_object (read_overlay (Plain (JObj overlay)) k)"
    using g rd by simp
  have "\<exists>m. deepMergeObjects (get_prop (JObj base) k) (read_overlay (Plain (JObj overlay)) k)
              = Inr m \<and> map_of (own_props r) k = Some m"
    using deepMerge_lookup [OF assms(1) nn own p] c by (simp only: if_True simp_thms)
  then obtain m where m: "deepMergeObjects (JArr xs) (Plain (JArr ys)) = Inr m"
    and l: "map_of (own_props r) k = Some m"
    using g rd by auto
  obtain ps where "m = JObj ps" using deepMerge_result_object [OF m] by auto
  then show ?thesis using m l by simp
qed

text \<open>
  The merge throws nothing but the \<^verbatim>\<open>TypeError\<close> of the call of \<^verbatim>\<open>hasOwnProperty\<close>, and
  it returns when no object inside \<open>obj1\<close> has a key of that name.
\<close>

lemma is_digit_nat_to_string: "list_all is_digit (nat_to_string n)"
proof (induction n rule: nat_to_string.induct)
  case (1 n)
  have d: "is_digit (digit_char m)" if "m < 10" for m
  proof -
    have "\<forall>m \<in> set [0..<10]. is_digit (digit_char m)"
      by (simp add: digit_char_def is_digit_def upt_rec)
    then show ?thesis using that by simp
  qed
  show ?case
  proof (cases "n < 10")
    case True
    then show ?thesis by (simp add: nat_to_string.simps [of n] d)
  next
    case False
    then have "list_all is_digit (nat_to_string (n div 10))" by (rule 1)
    then show ?thesis using False by (simp add: nat_to_string.simps [of n] d)
  qed
qed

lemma index_keys_digits: "k \<in> set (index_keys n) \<Longrightarrow> list_all is_digit k"
  by (auto simp: index_keys_def is_digit_nat_to_string)

lemma own_keys_not_shadowing: "\<not> shadowing obj \<Longrightarrow> ''hasOwnProperty'' \<notin> set (own_keys obj)"
proof (cases obj)
  case (JArr xs)
  have "\<not> list_all is_digit ''hasOwnProperty''" by (simp add: is_digit_def)
  then have "''hasOwnProperty'' \<notin> set (index_keys (length xs))" using index_keys_digits by blast
  then show ?thesis using JArr by (auto simp: own_keys_def dest: set_zip_leftD)
next
  case (JStr str)
  have "\<not> list_all is_digit ''hasOwnProperty''" by (simp add: is_digit_def)
  then have "''hasOwnProperty'' \<notin> set (index_keys (length str))" using index_keys_digits by blast
  then show ?thesis using JStr by (auto simp: own_keys_def dest: set_zip_leftD)
qed (auto simp: own_keys_def)

lemma get_prop_not_shadowing: "\<not> shadowing obj \<Longrightarrow> \<not> shadowing (get_prop obj k)"
proof (cases obj)
  case (JObj ps)
  assume n: "\<not> shadowing obj"
  show ?thesis
  proof (cases "map_of ps k")
    case None
    then show ?thesis using JObj by (simp add: get_prop_def)
  next
    case (Some v)
    then have "(k, v) \<in> set ps" by (rule map_of_SomeD)
    then have "\<not> shadowing v" using n JObj by auto
    then show ?thesis using JObj Some by (simp add: get_prop_def)
  qed
next
  case (JArr xs)
  assume n: "\<not> shadowing obj"
  show ?thesis
  proof (cases "map_of (zip (index_keys (length xs)) xs) k")
    case None
    then show ?thesis using JArr by (simp add: get_prop_def)
  next
    case (Some v)
    then have "(k, v) \<in> set (zip (index_keys (length xs)) xs)" by (rule map_of_SomeD)
    then have "v \<in> set xs" by (rule set_zip_rightD)
    then have "\<not> shadowing v" using n JArr by auto
    then show ?thesis using JArr Some by (simp add: get_prop_def)
  qed
next
  case (JStr str)
  show ?thesis
  proof (cases "map_of (zip (index_keys (length str)) (map (\<lambda>c. JStr [c]) str)) k")
    case None
    then show ?thesis using JStr by (simp add: get_prop_def)
  next
    case (Some v)
    then have "(k, v) \<in> set (zip (index_keys (length str)) (map (\<lambda>c. JStr [c]) str))"
      by (rule map_of_SomeD)
    then have "v \<in> set (map (\<lambda>c. JStr [c]) str)" by (rule set_zip_rightD)
    then obtain c where "v = JStr [c]" by auto
    then show ?thesis using JStr Some by (simp add: get_prop_def)
  qed
qed (auto simp: get_prop_def)

lemma deepMerge_returns_aux:
  "(\<not> shadowing obj1 \<longrightarrow> (\<exists>r. deepMergeObjects obj1 obj2 = Inr r))"
  "(\<not> shadowing obj1 \<longrightarrow> (\<exists>r. merge_loop obj1 obj2 out ks = Inr r))"
proof (induction obj1 obj2 and obj1 obj2 out ks rule: deepMergeObjects_merge_loop.induct)
  case (1 obj1 obj2)
  then show ?case by (auto simp: deepMergeObjects.simps split: sum.splits)
next
  case (2 obj1 obj2 out0)
  then show ?case by simp
next
  case (3 obj1 obj2 out0 key keys)
  show ?case
  proof
    assume n: "\<not> shadowing obj1"
    then have call: "call_hasOwnProperty obj1 key = Inr (has_own_property obj1 key)"
      by (simp add: call_hasOwnProperty_def own_keys_not_shadowing)
    have sub: "\<not> shadowing (get_prop obj1 key)" using n by (rule get_prop_not_shadowing)
    show "\<exists>r. merge_loop obj1 obj2 out0 (key # keys) = Inr r"
    proof (cases "has_own_property obj1 key")
      case False
      then show ?thesis using 3(4) [OF call] n call by simp
    next
      case own: True
      show ?thesis
      proof (cases "truthy (get_prop obj1 key) \<and> typeof_object (get_prop obj1 key)
                \<and> is_object (read_overlay obj2 key)")
        case False
        then show ?thesis using 3(3) [OF call own] n call own by auto
      next
        case True
        then obtain m where m: "deepMergeObjects (get_prop obj1 key) (read_overlay obj2 key) = Inr m"
          using 3(1) [OF call own] sub by auto
        then show ?thesis using 3(2) [OF call own True m] n call own True by simp
      qed
    qed
  qed
qed

lemma deepMerge_returns: "\<not> shadowing obj1 \<Longrightarrow> \<exists>r. deepMergeObjects obj1 obj2 = Inr r"
  using deepMerge_returns_aux(1) by blast

lemma deepMerge_throws_aux:
  "(deepMergeObjects obj1 obj2 = Inl e \<longrightarrow> e = TypeError)"
  "(merge_loop obj1 obj2 out ks = Inl e \<longrightarrow> e = TypeError)"
proof (induction obj1 obj2 and obj1 obj2 out ks rule: deepMergeObjects_merge_loop.induct)
  case (1 obj1 obj2)
  then show ?case by (auto simp: deepMergeObjects.simps split: sum.splits)
next
  case (2 obj1 obj2 out0)
  then show ?case by simp
next
  case (3 obj1 obj2 out0 key keys)
  then show ?case
    by (auto simp: call_hasOwnProperty_def split: sum.splits if_splits)
qed

lemma deepMerge_throws_TypeError: "deepMergeObjects obj1 obj2 = Inl e \<Longrightarrow> e = TypeError"
  using deepMerge_throws_aux(1) by blast

text \<open>The identity laws, for a mapping without the keys \<^verbatim>\<open>hasOwnProperty\<close> and \<^verbatim>\<open>__proto__\<close>.\<close>

lemma merge_loop_empty_overlay:
  "distinct (map fst (ps @ ss)) \<Longrightarrow> sorted_wrt key_before (map fst (ps @ ss)) \<Longrightarrow>
   A = ps @ ss \<Longrightarrow> ''hasOwnProperty'' \<notin> fst ` set A \<Longrightarrow> ''__proto__'' \<notin> fst ` set A \<Longrightarrow>
   merge_loop (JObj A) (Plain (JObj [])) ps (map fst ss) = Inr (ps @ ss)"
proof (induction ss arbitrary: ps)
  case Nil
  then show ?case by simp
next
  case (Cons s ss)
  obtain k v where s: "s = (k, v)" by (cases s)
  have g: "get_prop (JObj A) k = v"
    using Cons.prems s by (intro get_prop_distinct) auto
  have kA: "k \<in> fst ` set A" using Cons.prems(3) s by force
  have call: "call_hasOwnProperty (JObj A) k = Inr True"
    using Cons.prems(4) kA by (simp add: call_hasOwnProperty_def has_own_property_def own_keys_def)
  have np: "k \<noteq> ''__proto__''" using Cons.prems(5) kA by blast
  have rd: "\<not> is_object (read_overlay (Plain (JObj [])) k)"
    using np by (simp add: get_prop_empty)
  have nk: "k \<notin> set (map fst ps)" using Cons.prems(1) s by auto
  have kb: "\<forall>p \<in> set ps. key_before (fst p) k"
    using Cons.prems(2) s by (auto simp: sorted_wrt_append)
  have "set_prop k v ps = ps @ [(k, v)]" using nk kb by (rule set_prop_append)
  then have sp: "assign_prop k v ps = ps @ [(k, v)]" using np by (simp add: assign_prop_def)
  have "merge_loop (JObj A) (Plain (JObj [])) ps (map fst (s # ss))
        = merge_loop (JObj A) (Plain (JObj [])) (ps @ [(k, v)]) (map fst ss)"
    using s g sp call rd by simp
  also have "\<dots> = Inr ((ps @ [(k, v)]) @ ss)"
    using Cons.prems s by (intro Cons.IH) auto
  finally show ?case using s by simp
qed

lemma deepMerge_right_empty:
  "ordered_keys (map fst A) \<Longrightarrow> ''hasOwnProperty'' \<notin> fst ` set A \<Longrightarrow>
   ''__proto__'' \<notin> fst ` set A \<Longrightarrow>
   deepMergeObjects (JObj A) (Plain (JObj [])) = Inr (JObj A)"
  using merge_loop_empty_overlay [of "[]" A A]
  by (simp add: ordered_keys_def own_keys_def deepMergeObjects.simps)

lemma deepMerge_left_empty: "deepMergeObjects (JObj []) (Plain (JObj B)) = Inr (JObj B)"
  by (simp add: own_keys_def deepMergeObjects.simps)

lemma deepMerge_null_overlay:
  "deepMergeObjects X (Plain JNull) = Inr X" "deepMergeObjects X (Plain JUndefined) = Inr X"
  by (simp_all add: deepMergeObjects.simps)

text \<open>
  Claim C1. For mappings \<open>base\<close> and \<open>overlay\<close>, a key that both hold with scalar values
  is mapped by \<open>deepMergeObjects base overlay\<close> to the value of \<open>base\<close>. The code does not
  do so for every \<open>base\<close>: \<^verbatim>\<open>deepMergeObjects({hasOwnProperty: 1, a: 2}, {a: 3})\<close> throws
  a \<^verbatim>\<open>TypeError\<close> and returns no mapping, where the claim gives \<^verbatim>\<open>2\<close> under \<^verbatim>\<open>a\<close>. The
  code calls \<^verbatim>\<open>obj1.hasOwnProperty(key)\<close> on the mapping whose keys it is testing, and in
  this mapping the name \<^verbatim>\<open>hasOwnProperty\<close> is a key with the value \<^verbatim>\<open>1\<close>. Wherever the
  merge returns, base wins on a scalar and the keys of the overlay alone pass through
  (\<open>deepMerge_base_wins\<close>, \<open>deepMerge_overlay_only\<close>); it returns when no object in \<open>base\<close>
  has a key of that name (\<open>deepMerge_returns\<close>).
\<close>

theorem deepMerge_throws_on_key_hasOwnProperty:
  "deepMergeObjects (JObj [(''hasOwnProperty'', JNum 1), (''a'', JNum 2)])
       (Plain (JObj [(''a'', JNum 3)]))
     = Inl TypeError"
  by (simp add: merge_eval js_eval)

text \<open>
  Claim C2. Where \<open>base\<close> and \<open>overlay\<close> both hold an array under a key, the result holds
  the array of \<open>base\<close> under that key. The code does not return it:
  \<^verbatim>\<open>deepMergeObjects({a: [1]}, {a: [2, 3]})\<close> is \<^verbatim>\<open>{a: {0: 1, 1: 3}}\<close>. An array passes
  the test \<^verbatim>\<open>typeof v === "object"\<close>, so the code merges the two arrays index by index,
  and the result of a merge is a plain object made by \<^verbatim>\<open>{ ...obj2 }\<close>: neither the array
  \<^verbatim>\<open>[1]\<close> of \<open>base\<close> nor an array at all. No two arrays under one key give an array
  (\<open>deepMerge_arrays_to_object\<close>).
\<close>

theorem deepMerge_arrays_become_object:
  "deepMergeObjects (JObj [(''a'', JArr [JNum 1])])
       (Plain (JObj [(''a'', JArr [JNum 2, JNum 3])]))
     = Inr (JObj [(''a'', JObj [(''0'', JNum 1), (''1'', JNum 3)])])"
  by (simp add: merge_eval js_eval upt_rec)

text \<open>
  Claim C7. The identity laws: \<open>deepMergeObjects A {}\<close> is \<open>A\<close>, \<open>deepMergeObjects {} B\<close>
  is \<open>B\<close>, and a \<^verbatim>\<open>null\<close> or \<^verbatim>\<open>undefined\<close> overlay gives the base. The code breaks the
  first law: for \<^verbatim>\<open>A = JSON.parse('{"__proto__": {"a": 1}, "b": 2}')\<close>, a mapping with
  the two keys \<^verbatim>\<open>__proto__\<close> and \<^verbatim>\<open>b\<close>, \<^verbatim>\<open>deepMergeObjects(A, {})\<close> is \<^verbatim>\<open>{b: 2}\<close>.
  Reading \<^verbatim>\<open>obj2["__proto__"]\<close> from the empty overlay gives \<^verbatim>\<open>Object.prototype\<close>, an
  object, so the code merges \<^verbatim>\<open>{a: 1}\<close> with it; and the assignment
  \<^verbatim>\<open>output["__proto__"] = ...\<close> replaces the prototype of \<open>output\<close> and adds no key. The
  law holds for a mapping \<open>A\<close> without the keys \<^verbatim>\<open>__proto__\<close> and \<^verbatim>\<open>hasOwnProperty\<close>
  (\<open>deepMerge_right_empty\<close>), and the other laws hold as they stand
  (\<open>deepMerge_left_empty\<close>, \<open>deepMerge_null_overlay\<close>).
\<close>

theorem deepMerge_empty_overlay_loses_key_proto:
  "deepMergeObjects (JObj [(''__proto__'', JObj [(''a'', JNum 1)]), (''b'', JNum 2)])
       (Plain (JObj []))
     = Inr (JObj [(''b'', JNum 2)])"
  by (simp add: merge_eval js_eval)

section \<open>Error normalisation\<close>

text \<open>
  \<open>handleError\<close> returns in no case. It throws the error with a prefix for every input
  but a value that holds a BigInt, the one case in which \<open>json_stringify\<close> throws.
\<close>

lemma json_stringify_cases:
  "(has_bigint v \<longrightarrow> json_stringify v = Inl TypeError)
   \<and> (\<not> has_bigint v \<longrightarrow> (\<exists>r. json_stringify v = Inr r))"
  "((\<exists>x \<in> set xs. has_bigint x) \<longrightarrow> json_elements xs = Inl TypeError)
   \<and> (\<not> (\<exists>x \<in> set xs. has_bigint x) \<longrightarrow> (\<exists>r. json_elements xs = Inr r))"
  "((\<exists>p \<in> set ps. has_bigint (snd p)) \<longrightarrow> json_properties ps = Inl TypeError)
   \<and> (\<not> (\<exists>p \<in> set ps. has_bigint (snd p)) \<longrightarrow> (\<exists>r. json_properties ps = Inr r))"
  by (induction v and xs and ps rule: json_stringify_json_elements_json_properties.induct)
     (auto split: sum.splits)

lemma json_stringify_throws: "json_stringify v = Inl e \<longleftrightarrow> has_bigint v \<and> e = TypeError"
  using json_stringify_cases(1) [of v] by (cases "has_bigint v") auto

lemma handleError_never_returns: "\<exists>e. fst (handleError x con) = Inl e"
  by (cases "(x, con)" rule: handleError.cases) (auto split: sum.splits)

lemma handleError_Error_instance:
  "fst (handleError (ErrorInstance name msg) con) = Inl (Error (''Error: '' @ msg))"
  by simp

lemma handleError_string:
  "fst (handleError (PlainValue (JStr s)) con) = Inl (Error (''Error: '' @ s))"
  by simp

lemma handleError_serializable:
  assumes "\<not> is_string v" and "\<not> has_bigint v"
  shows "\<exists>r. json_stringify v = Inr r
           \<and> fst (handleError (PlainValue v) con)
               = Inl (Error (''Unknown error: '' @ template_string r))"
proof -
  obtain r where r: "json_stringify v = Inr r"
    using assms(2) json_stringify_throws [of v] by (cases "json_stringify v") auto
  then show ?thesis using assms(1) by (cases v) simp_all
qed

lemma handleError_unserializable:
  "has_bigint v \<Longrightarrow> fst (handleError (PlainValue v) con) = Inl TypeError"
proof -
  assume b: "has_bigint v"
  then have "json_stringify v = Inl TypeError" by (simp add: json_stringify_throws)
  moreover have "\<not> is_string v" using b by (cases v) simp_all
  ultimately show ?thesis by (cases v) simp_all
qed

lemma handleError_examples:
  "fst (handleError (ErrorInstance ''RangeError'' ''x'') con) = Inl (Error ''Error: x'')"
  "fst (handleError (PlainValue (JStr ''plain'')) con) = Inl (Error ''Error: plain'')"
  "fst (handleError (PlainValue (JNum 42)) con) = Inl (Error ''Unknown error: 42'')"
  "fst (handleError (PlainValue (JArr [JNum 1, JNull])) con)
     = Inl (Error ''Unknown error: [1,null]'')"
  by (simp_all add: template_string_def int_to_string_def number_digits_def nat_to_string.simps
        digit_char_def join_def json_element_def)

lemma handleError_large_number:
  "fst (handleError (PlainValue (JNum 1000000000000000000000)) con)
     = Inl (Error ''Unknown error: 1e+21'')"
  by (simp add: template_string_def number_eval)

text \<open>
  Claim C6. \<open>handleError\<close> never returns, and for every input it throws an \<open>Error\<close> whose
  message is made from the input and starts with \<^verbatim>\<open>Error: \<close> or \<^verbatim>\<open>Unknown error: \<close>. The
  code returns in no branch, but it does not throw that error for every input:
  \<^verbatim>\<open>handleError(10n)\<close> logs the BigInt and then throws the \<^verbatim>\<open>TypeError\<close> of
  \<^verbatim>\<open>JSON.stringify\<close>, which cannot serialize a BigInt. Its message is the engine's, with
  neither prefix and without the input. Every input that holds no BigInt gets the error
  of the claim (\<open>handleError_Error_instance\<close>, \<open>handleError_string\<close>,
  \<open>handleError_serializable\<close>).
\<close>

theorem handleError_bigint_throws_TypeError:
  "handleError (PlainValue (JBigInt 10)) [] = (Inl TypeError, [JBigInt 10])"
  by simp

section \<open>The shimmer placeholder\<close>

text \<open>
  The SVG text is ASCII whatever the two numbers are, so its UTF-8 bytes are its code
  units and both branches of \<open>toBase64\<close> encode the same bytes.
\<close>

lemma utf8_bytes_ascii: "ascii s \<Longrightarrow> utf8_bytes s = latin1_bytes s"
  by (induction s) (simp_all add: ascii_def utf8_bytes_def latin1_bytes_def)

lemma ascii_append: "ascii (xs @ ys) \<longleftrightarrow> ascii xs \<and> ascii ys"
  by (simp add: ascii_def)

lemma ascii_nat_to_string: "ascii (nat_to_string n)"
proof (induction n rule: nat_to_string.induct)
  case (1 n)
  have d: "ascii [digit_char m]" if "m < 10" for m
    using that by (simp add: ascii_def of_char_digit_char)
  show ?case
  proof (cases "n < 10")
    case True
    then show ?thesis by (simp add: nat_to_string.simps [of n] d)
  next
    case False
    then have "ascii (nat_to_string (n div 10))" by (rule 1)
    then show ?thesis using False by (simp add: nat_to_string.simps [of n] ascii_append d)
  qed
qed

lemma ascii_replicate_zero: "ascii (replicate e CHR ''0'')"
  by (induction e) (simp_all add: ascii_def)

lemma ascii_strip_zeros: "ascii ds \<Longrightarrow> ascii (strip_zeros ds)"
proof -
  assume "ascii ds"
  then have "\<forall>c \<in> set ds. (of_char c :: nat) < 128" by (simp add: ascii_def list_all_iff)
  moreover have "set (strip_zeros ds) \<subseteq> set ds"
    using set_dropWhileD [of _ "\<lambda>c. c = CHR ''0''" "rev ds"] by (auto simp: strip_zeros_def)
  ultimately show ?thesis by (auto simp: ascii_def list_all_iff)
qed

lemma ascii_exponent_form: "ascii ds \<Longrightarrow> ascii (exponent_form ds n)"
proof -
  assume "ascii ds"
  then have s: "ascii (strip_zeros ds)" by (rule ascii_strip_zeros)
  have e: "ascii (''e+'' @ nat_to_string (n - 1))"
    using ascii_nat_to_string [of "n - 1"] by (simp add: ascii_def)
  show ?thesis
  proof (cases "strip_zeros ds")
    case Nil
    then show ?thesis by (simp add: exponent_form_def ascii_def)
  next
    case (Cons d rest)
    then have "ascii [d]" "ascii (d # CHR ''.'' # rest)" using s by (simp_all add: ascii_def)
    then show ?thesis using Cons e by (simp add: exponent_form_def ascii_append)
  qed
qed

lemma ascii_number_digits: "ascii (number_digits x)"
  by (simp add: number_digits_def ascii_nat_to_string ascii_append ascii_replicate_zero
        ascii_exponent_form split: prod.split)

lemma ascii_int_to_string: "ascii (int_to_string i)"
proof (cases "i < 0")
  case True
  have "ascii (CHR ''-'' # number_digits (nat (- i)))"
    using ascii_number_digits [of "nat (- i)"] by (simp add: ascii_def)
  then show ?thesis using True by (simp add: int_to_string_def)
next
  case False
  then show ?thesis by (simp add: int_to_string_def ascii_number_digits)
qed

lemma ascii_concat: "list_all ascii xs \<Longrightarrow> ascii (concat xs)"
  by (induction xs) (simp_all add: ascii_append, simp add: ascii_def)

lemma ascii_shimmer: "ascii (shimmer w h)"
  unfolding shimmer_def
  by (rule ascii_concat) (simp add: ascii_int_to_string, simp add: ascii_def)

text \<open>
  Claim C8. The placeholder is a function of the width and the height alone: the one
  thing \<open>toBase64\<close> reads from outside, the runtime, does not change the encoding of
  \<open>shimmer w h\<close>, so the data URL is the same text in every evaluation.
\<close>

theorem shimmer_data_url_deterministic:
  "toBase64 env (shimmer w h) = toBase64 env' (shimmer w h)
   \<and> getDataUrl env = getDataUrl env'
   \<and> dataUrl env = dataUrl env'"
proof -
  have "toBase64 a (shimmer x y) = base64_encode (latin1_bytes (shimmer x y))" for a x y
    by (cases a) (simp_all add: toBase64_def utf8_bytes_ascii ascii_shimmer)
  then show ?thesis by (simp add: getDataUrl_def dataUrl_def)
qed

section \<open>The download helper\<close>

lemma replace_first_absent: "a \<notin> set s \<Longrightarrow> replace_first a b s = s"
  by (induction s) auto

lemma replace_first_at: "a \<notin> set pre \<Longrightarrow> replace_first a b (pre @ a # post) = pre @ b # post"
  by (induction pre) auto

text \<open>
  Claim C9. For a non-empty file name the anchor that is appended and clicked carries the
  name with its first space replaced by an underscore (later spaces stay) and \<^verbatim>\<open>.png\<close>
  appended. A call with a non-empty URL does not throw, and a fetch that fails, or a body
  that cannot be read, only adds \<^verbatim>\<open>{ error }\<close> to the console.
\<close>

theorem download_names_file_and_drops_failures:
  "(f \<noteq> [] \<longrightarrow>
      download_settled (Some f) (BlobReady u) pg
        = pg\<lparr>body := body pg @ [\<lparr>href = u, download_attr = Some (replace_first CHR '' '' CHR ''_'' f @ ''.png'')\<rparr>],
             clicked := clicked pg @ [\<lparr>href = u, download_attr = Some (replace_first CHR '' '' CHR ''_'' f @ ''.png'')\<rparr>]\<rparr>)
   \<and> (CHR '' '' \<notin> set pre \<longrightarrow>
        replace_first CHR '' '' CHR ''_'' (pre @ CHR '' '' # post) = pre @ CHR ''_'' # post)
   \<and> (CHR '' '' \<notin> set f \<longrightarrow> replace_first CHR '' '' CHR ''_'' f = f)
   \<and> (url \<noteq> [] \<longrightarrow> fst (download url fn pg) = Inr ())
   \<and> download_settled fn (FetchRejected e) pg = pg\<lparr>logged := logged pg @ [JObj [(''error'', e)]]\<rparr>
   \<and> download_settled fn (BlobRejected e) pg = pg\<lparr>logged := logged pg @ [JObj [(''error'', e)]]\<rparr>"
  by (simp add: download_settled_def make_anchor_def download_def replace_first_absent replace_first_at)

text \<open>
  Witness for C9: the file name \<^verbatim>\<open>my new file\<close> is saved as \<^verbatim>\<open>my_new file.png\<close>.
\<close>

theorem download_names_file_and_drops_failures_witness:
  "''my new file'' \<noteq> [] \<and> CHR '' '' \<notin> set ''my'' \<and> CHR '' '' \<notin> set ''logo''
   \<and> ''https://x/y.png'' \<noteq> []
   \<and> download_settled (Some ''my new file'') (BlobReady ''blob:1'') empty_page
       = \<lparr>fetches = [], body = [\<lparr>href = ''blob:1'', download_attr = Some ''my_new file.png''\<rparr>],
          clicked = [\<lparr>href = ''blob:1'', download_attr = Some ''my_new file.png''\<rparr>], logged = []\<rparr>
   \<and> fst (download ''https://x/y.png'' (Some ''my new file'') empty_page) = Inr ()"
  using download_names_file_and_drops_failures
    [of "''my new file''" "''blob:1''" empty_page "''my''" "''new file''" "''https://x/y.png''" "Some ''my new file''" JNull]
  by (simp add: empty_page_def)

text \<open>
  Claim C10. \<open>download\<close> throws \<^verbatim>\<open>Resource URL not provided! You need to provide one\<close>
  when the URL is empty, with the page as it was (no fetch started); with a non-empty URL
  the call returns without throwing.
\<close>

theorem download_throws_iff_url_empty:
  "download [] fn pg = (Inl (Error ''Resource URL not provided! You need to provide one''), pg)
   \<and> (url \<noteq> [] \<longrightarrow> fst (download url fn pg) = Inr ())"
  by (simp add: download_def)

text \<open>
  Witness for C10: a call with a URL starts the fetch of that URL and returns; a call with
  the empty URL throws and leaves the page alone.
\<close>

theorem download_throws_iff_url_empty_witness:
  "''https://x/y.png'' \<noteq> []
   \<and> download ''https://x/y.png'' None empty_page
       = (Inr (), \<lparr>fetches = [''https://x/y.png''], body = [], clicked = [], logged = []\<rparr>)
   \<and> download [] None empty_page
       = (Inl (Error ''Resource URL not provided! You need to provide one''), empty_page)"
  using download_throws_iff_url_empty [of None empty_page "''https://x/y.png''"]
  by (simp add: download_def empty_page_def)

section \<open>The debounced function\<close>

text \<open>The invariant holds at the start and every event keeps it.\<close>

lemma one_pending_debounced: "one_pending st \<Longrightarrow> one_pending (debounced delay a st)"
  by (auto simp: one_pending_def debounced_def clearTimeout_def setTimeout_def Let_def
      split: list.splits option.splits)

lemma one_pending_advance: "one_pending st \<Longrightarrow> one_pending (advance dt st)"
  by (auto simp: one_pending_def advance_def split: list.splits)

lemma one_pending_foldl: "one_pending st \<Longrightarrow> one_pending (foldl (step delay) st evs)"
proof (induction evs arbitrary: st)
  case Nil
  then show ?case by simp
next
  case (Cons ev evs)
  have "one_pending (step delay st ev)"
    using Cons.prems by (cases ev) (simp_all add: one_pending_debounced one_pending_advance)
  then show ?case by (simp add: Cons.IH)
qed

lemma one_pending_run: "one_pending (run delay evs)"
  unfolding run_def by (rule one_pending_foldl) (simp add: one_pending_def debounce_def)

lemma debounced_replaces:
  "one_pending st \<Longrightarrow>
   timers (debounced delay a st)
     = [\<lparr>timer_id = next_id st, fires_at = clock st + delay, timer_args = a\<rparr>]"
  by (auto simp: one_pending_def debounced_def clearTimeout_def setTimeout_def Let_def
      split: list.splits option.splits)

lemma five_calls:
  assumes "d1 + d2 + d3 + d4 < delay" and "delay \<le> w"
  shows "calls (run delay [Call a1, Wait d1, Call a2, Wait d2, Call a3, Wait d3, Call a4, Wait d4, Call a5]) = []"
    and "calls (run delay [Call a1, Wait d1, Call a2, Wait d2, Call a3, Wait d3, Call a4, Wait d4, Call a5, Wait w]) = [a5]"
  using assms
  by (simp_all add: run_def debounce_def debounced_def clearTimeout_def setTimeout_def advance_def Let_def)


lemma pending_call_debounced:
  "one_pending st \<Longrightarrow> pending_call (debounced delay a st) delay a"
  by (auto simp: one_pending_def pending_call_def debounced_def clearTimeout_def setTimeout_def
      Let_def split: list.splits option.splits)

lemma calls_debounced: "calls (debounced delay a st) = calls st"
  by (simp add: debounced_def clearTimeout_def setTimeout_def Let_def split: option.splits)

lemma pending_call_one_pending: "pending_call st delay a \<Longrightarrow> one_pending st"
  by (auto simp: one_pending_def pending_call_def split: list.splits)

lemma advance_before_due:
  "pending_call st delay a \<Longrightarrow> d < delay \<Longrightarrow>
   one_pending (advance d st) \<and> calls (advance d st) = calls st"
  by (auto simp: one_pending_def pending_call_def advance_def split: list.splits)

lemma advance_when_due:
  "pending_call st delay a \<Longrightarrow> delay \<le> w \<Longrightarrow>
   calls (advance w st) = calls st @ [a] \<and> timers (advance w st) = []"
  by (auto simp: pending_call_def advance_def split: list.splits)

text \<open>
  Along a burst whose pauses are all shorter than the delay nothing fires: each call finds
  the timeout of the call before it still pending and replaces it.
\<close>

lemma burst_tail:
  "pending_call st delay a0 \<Longrightarrow> \<forall>g \<in> set gaps. fst g < delay \<Longrightarrow>
   pending_call (foldl (step delay) st (concat (map (\<lambda>g. [Wait (fst g), Call (snd g)]) gaps)))
      delay (last (a0 # map snd gaps))
   \<and> calls (foldl (step delay) st (concat (map (\<lambda>g. [Wait (fst g), Call (snd g)]) gaps)))
      = calls st"
proof (induction gaps arbitrary: st a0)
  case Nil
  then show ?case by simp
next
  case (Cons g gaps)
  let ?st = "debounced delay (snd g) (advance (fst g) st)"
  have lt: "fst g < delay" using Cons.prems(2) by simp
  have adv: "one_pending (advance (fst g) st)" "calls (advance (fst g) st) = calls st"
    using advance_before_due [OF Cons.prems(1) lt] by simp_all
  have p: "pending_call ?st delay (snd g)" using adv(1) by (rule pending_call_debounced)
  have c: "calls ?st = calls st" using adv(2) by (simp add: calls_debounced)
  have "pending_call (foldl (step delay) ?st (concat (map (\<lambda>g. [Wait (fst g), Call (snd g)]) gaps)))
          delay (last (snd g # map snd gaps))
        \<and> calls (foldl (step delay) ?st (concat (map (\<lambda>g. [Wait (fst g), Call (snd g)]) gaps)))
          = calls ?st"
    using p Cons.prems(2) by (intro Cons.IH) simp_all
  then show ?case using c by simp
qed

lemma run_burst:
  "run delay (burst a0 gaps)
     = foldl (step delay) (debounced delay a0 debounce)
         (concat (map (\<lambda>g. [Wait (fst g), Call (snd g)]) gaps))"
  by (simp add: run_def burst_def)

lemma run_snoc: "run delay (evs @ [ev]) = step delay (run delay evs) ev"
  by (simp add: run_def)

lemma one_pending_initial: "one_pending debounce"
  by (simp add: one_pending_def debounce_def)

lemma calls_initial: "calls debounce = []"
  by (simp add: debounce_def)

lemma burst_then_wait:
  assumes "\<forall>g \<in> set gaps. fst g < delay" and "delay \<le> w"
  shows "calls (run delay (burst a0 gaps)) = []"
    and "calls (run delay (burst a0 gaps @ [Wait w])) = [last (a0 # map snd gaps)]"
proof -
  let ?st0 = "debounced delay a0 debounce"
  have p0: "pending_call ?st0 delay a0"
    using one_pending_initial by (rule pending_call_debounced)
  have c0: "calls ?st0 = []"
    by (simp only: calls_debounced calls_initial)
  have b: "pending_call (run delay (burst a0 gaps)) delay (last (a0 # map snd gaps))
           \<and> calls (run delay (burst a0 gaps)) = calls ?st0"
    unfolding run_burst using p0 assms(1) by (rule burst_tail)
  from b c0 show e: "calls (run delay (burst a0 gaps)) = []" by (simp only:)
  from b have p: "pending_call (run delay (burst a0 gaps)) delay (last (a0 # map snd gaps))" ..
  have "calls (advance w (run delay (burst a0 gaps)))
          = calls (run delay (burst a0 gaps)) @ [last (a0 # map snd gaps)]"
    using advance_when_due [OF p assms(2)] ..
  then show "calls (run delay (burst a0 gaps @ [Wait w])) = [last (a0 # map snd gaps)]"
    by (simp only: run_snoc step.simps e append_Nil)
qed

text \<open>
  Claim C5. A debounced function has at most one timeout pending, in every state that
  calls and the passing of time can reach, and a call leaves exactly the timeout that it
  has just set. So a burst of calls whose pauses are shorter than the delay calls \<^verbatim>\<open>func\<close>
  not at all while it lasts and once, with the arguments of the last call, when the delay
  has passed; in particular five calls within a window shorter than the delay.
\<close>

theorem debounce_one_pending_invocation:
  "length (timers (run delay evs)) \<le> 1
   \<and> timers (debounced delay a (run delay evs))
       = [\<lparr>timer_id = next_id (run delay evs), fires_at = clock (run delay evs) + delay,
           timer_args = a\<rparr>]
   \<and> ((\<forall>g \<in> set gaps. fst g < delay) \<and> delay \<le> w \<longrightarrow>
        calls (run delay (burst a0 gaps)) = []
        \<and> calls (run delay (burst a0 gaps @ [Wait w])) = [last (a0 # map snd gaps)])
   \<and> (d1 + d2 + d3 + d4 < delay \<and> delay \<le> w \<longrightarrow>
        calls (run delay [Call a1, Wait d1, Call a2, Wait d2, Call a3, Wait d3, Call a4, Wait d4,
                          Call a5]) = []
        \<and> calls (run delay [Call a1, Wait d1, Call a2, Wait d2, Call a3, Wait d3, Call a4, Wait d4,
                            Call a5, Wait w]) = [a5])"
proof -
  have 1: "length (timers (run delay evs)) \<le> 1"
    using one_pending_run [of delay evs] by (auto simp: one_pending_def split: list.splits)
  have 2: "timers (debounced delay a (run delay evs))
       = [\<lparr>timer_id = next_id (run delay evs), fires_at = clock (run delay evs) + delay,
           timer_args = a\<rparr>]"
    using one_pending_run by (rule debounced_replaces)
  have 3: "(\<forall>g \<in> set gaps. fst g < delay) \<and> delay \<le> w \<longrightarrow>
        calls (run delay (burst a0 gaps)) = []
        \<and> calls (run delay (burst a0 gaps @ [Wait w])) = [last (a0 # map snd gaps)]"
    using burst_then_wait [of gaps delay w a0] by blast
  have 4: "d1 + d2 + d3 + d4 < delay \<and> delay \<le> w \<longrightarrow>
        calls (run delay [Call a1, Wait d1, Call a2, Wait d2, Call a3, Wait d3, Call a4, Wait d4,
                          Call a5]) = []
        \<and> calls (run delay [Call a1, Wait d1, Call a2, Wait d2, Call a3, Wait d3, Call a4, Wait d4,
                            Call a5, Wait w]) = [a5]"
    using five_calls [of d1 d2 d3 d4 delay w a1 a2 a3 a4 a5] by blast
  from 1 2 3 4 show ?thesis by (intro conjI)
qed


text \<open>
  Witness for C5: with a delay of 300 ms, five calls 10, 20, 30 and 40 ms apart call
  \<^verbatim>\<open>func\<close> once, with the arguments of the fifth.
\<close>

theorem debounce_one_pending_invocation_witness:
  "(10::nat) < 300 \<and> (20::nat) < 300 \<and> (300::nat) \<le> 300
   \<and> (10::nat) + 20 + 30 + 40 < 300
   \<and> calls (run 300 (burst ''a'' [(10, ''b''), (20, ''c'')] @ [Wait 300])) = [''c'']
   \<and> calls (run 300 [Call ''a'', Wait 10, Call ''b'', Wait 20, Call ''c'', Wait 30, Call ''d'',
         Wait 40, Call ''e'', Wait 300]) = [''e'']
   \<and> calls (run 300 [Call ''a'', Wait 10, Call ''b'', Wait 20, Call ''c'', Wait 30, Call ''d'',
         Wait 40, Call ''e'']) = []"
proof -
  note T = debounce_one_pending_invocation
    [of 300 "[]" "''a''" "[(10, ''b''), (20, ''c'')]" 300 "''a''" 10 20 30 40 "''a''" "''b''"
        "''c''" "''d''" "''e''"]
  have h1: "(\<forall>g \<in> set [(10, ''b''), (20, ''c'')]. fst g < (300::nat)) \<and> (300::nat) \<le> 300"
    by simp
  have h2: "(10::nat) + 20 + 30 + 40 < 300 \<and> (300::nat) \<le> 300" by simp
  have b: "calls (run 300 (burst ''a'' [(10, ''b''), (20, ''c'')])) = []
      \<and> calls (run 300 (burst ''a'' [(10, ''b''), (20, ''c'')] @ [Wait 300]))
        = [last (''a'' # map snd [(10::nat, ''b''), (20, ''c'')])]"
    using T [THEN conjunct2, THEN conjunct2, THEN conjunct1] h1 by (rule mp)
  have f: "calls (run 300 [Call ''a'', Wait 10, Call ''b'', Wait 20, Call ''c'', Wait 30, Call ''d'',
         Wait 40, Call ''e'']) = []
      \<and> calls (run 300 [Call ''a'', Wait 10, Call ''b'', Wait 20, Call ''c'', Wait 30, Call ''d'',
         Wait 40, Call ''e'', Wait 300]) = [''e'']"
    using T [THEN conjunct2, THEN conjunct2, THEN conjunct2] h2 by (rule mp)
  have l: "last (''a'' # map snd [(10::nat, ''b''), (20, ''c'')]) = ''c''" by simp
  have n: "(10::nat) < 300" "(20::nat) < 300" "(300::nat) \<le> 300" "(10::nat) + 20 + 30 + 40 < 300"
    by simp_all
  from b have b2: "calls (run 300 (burst ''a'' [(10, ''b''), (20, ''c'')] @ [Wait 300])) = [''c'']"
    unfolding l by (rule conjunct2)
  from n b2 f [THEN conjunct2] f [THEN conjunct1] show ?thesis by (intro conjI)
qed

section \<open>The query string functions\<close>

lemmas qs_eval = query_parts_def part_key_def part_value_def parse_step_def qs_parse_def
  qs_stringify_def qs_encode_def unreserved_def join_def formUrlQuery_def removeKeysFromQuery_def
  remove_keys_def remove_nullish_def nullish_def

subsection \<open>Assignment keeps an object in enumeration order\<close>

lemma map_fst_update_prop: "map fst (update_prop k v ps) = map fst ps"
  by (induction ps) auto

lemma filter_update_prop:
  "filter (\<lambda>p. fst p \<noteq> k) (update_prop k v ps) = filter (\<lambda>p. fst p \<noteq> k) ps"
  by (induction ps) auto

lemma filter_insert_index:
  "filter (\<lambda>p. fst p \<noteq> k) (insert_index i k v ps) = filter (\<lambda>p. fst p \<noteq> k) ps"
  by (induction ps) (auto split: option.splits)

lemma delete_set_prop: "delete_prop k (set_prop k v ps) = delete_prop k ps"
  by (simp add: delete_prop_def set_prop_def filter_update_prop filter_insert_index
      split: option.splits)

lemma delete_prop_absent: "k \<notin> fst ` set ps \<Longrightarrow> delete_prop k ps = ps"
  by (induction ps) (auto simp: delete_prop_def)

lemma set_insert_index: "set (map fst (insert_index i k v ps)) = insert k (set (map fst ps))"
  by (induction ps) (auto split: option.splits)

lemma array_index_canonical: "array_index a = Some i \<Longrightarrow> a = nat_to_string i"
  by (auto simp: array_index_def split: if_splits)

lemma array_index_inj: "array_index a = Some i \<Longrightarrow> array_index b = Some i \<Longrightarrow> a = b"
  using array_index_canonical [of a i] array_index_canonical [of b i] by simp

lemma key_before_index_trans:
  "array_index k = Some i \<Longrightarrow> array_index a = Some j \<Longrightarrow> i < j \<Longrightarrow> key_before a x \<Longrightarrow>
   key_before k x"
  by (auto simp: key_before_def split: option.splits)

lemma key_before_index_nonindex:
  "array_index k = Some i \<Longrightarrow> array_index a = None \<Longrightarrow> key_before a x \<Longrightarrow> key_before k x"
  by (auto simp: key_before_def split: option.splits)

lemma sorted_insert_index:
  assumes "array_index k = Some i" and "k \<notin> set (map fst ps)"
    and "sorted_wrt key_before (map fst ps)"
  shows "sorted_wrt key_before (map fst (insert_index i k v ps))"
  using assms(2,3)
proof (induction ps)
  case Nil
  then show ?case by simp
next
  case (Cons p ps)
  have rest: "\<forall>x \<in> set (map fst ps). key_before (fst p) x" using Cons.prems(2) by simp
  show ?case
  proof (cases "array_index (fst p)")
    case None
    have "key_before k (fst p)" using assms(1) None by (simp add: key_before_def)
    moreover have "\<forall>x \<in> set (map fst ps). key_before k x"
      using rest key_before_index_nonindex [OF assms(1) None] by blast
    ultimately show ?thesis using None Cons.prems(2) by simp
  next
    case (Some j)
    have ne: "j \<noteq> i"
    proof
      assume "j = i"
      then have "fst p = k" using Some assms(1) by (simp add: array_index_inj)
      then show False using Cons.prems(1) by simp
    qed
    show ?thesis
    proof (cases "j < i")
      case True
      have "key_before (fst p) k" using Some assms(1) True by (simp add: key_before_def)
      then have "\<forall>x \<in> set (map fst (insert_index i k v ps)). key_before (fst p) x"
        using rest unfolding set_insert_index by simp
      moreover have "sorted_wrt key_before (map fst (insert_index i k v ps))"
        using Cons.prems by (intro Cons.IH) simp_all
      ultimately show ?thesis using Some True by simp
    next
      case False
      then have lt: "i < j" using ne by simp
      have "key_before k (fst p)" using Some assms(1) lt by (simp add: key_before_def)
      moreover have "\<forall>x \<in> set (map fst ps). key_before k x"
        using rest key_before_index_trans [OF assms(1) Some lt] by blast
      ultimately show ?thesis using Some False Cons.prems(2) by simp
    qed
  qed
qed

lemma distinct_insert_index:
  "k \<notin> set (map fst ps) \<Longrightarrow> distinct (map fst ps) \<Longrightarrow> distinct (map fst (insert_index i k v ps))"
proof (induction ps)
  case Nil
  then show ?case by simp
next
  case (Cons p ps)
  have "fst p \<notin> set (map fst (insert_index i k v ps))"
    using Cons.prems unfolding set_insert_index by auto
  then show ?case using Cons by (auto split: option.splits)
qed

lemma key_before_nonindex: "array_index k = None \<Longrightarrow> key_before a k"
  by (simp add: key_before_def split: option.splits)

lemma ordered_keys_set_prop:
  assumes "ordered_keys (map fst ps)"
  shows "ordered_keys (map fst (set_prop k v ps))"
proof (cases "k \<in> set (map fst ps)")
  case True
  then show ?thesis using assms by (simp add: set_prop_def map_fst_update_prop)
next
  case False
  show ?thesis
  proof (cases "array_index k")
    case None
    then show ?thesis using assms False
      by (simp add: set_prop_def ordered_keys_def sorted_wrt_append key_before_nonindex)
  next
    case (Some i)
    have "sorted_wrt key_before (map fst (insert_index i k v ps))"
      using Some False assms by (intro sorted_insert_index) (simp_all add: ordered_keys_def)
    moreover have "distinct (map fst (insert_index i k v ps))"
      using False assms by (intro distinct_insert_index) (simp_all add: ordered_keys_def)
    ultimately show ?thesis using Some False by (simp add: set_prop_def ordered_keys_def)
  qed
qed

lemma ordered_keys_parse_step:
  "ordered_keys (map fst obj) \<Longrightarrow> ordered_keys (map fst (parse_step obj kv))"
  by (simp add: parse_step_def ordered_keys_set_prop split: option.splits)

lemma ordered_keys_foldl_parse:
  "ordered_keys (map fst obj) \<Longrightarrow> ordered_keys (map fst (foldl parse_step obj parts))"
  by (induction parts arbitrary: obj) (simp_all add: ordered_keys_parse_step)

lemma ordered_keys_qs_parse: "ordered_keys (map fst (qs_parse s))"
  unfolding qs_parse_def by (rule ordered_keys_foldl_parse) (simp add: ordered_keys_def)

lemma distinct_qs_parse: "distinct (map fst (qs_parse s))"
  using ordered_keys_qs_parse [of s] by (simp add: ordered_keys_def)

subsection \<open>The two loops of \<^verbatim>\<open>removeKeysFromQuery\<close>, the keys of a parsed query\<close>

lemma remove_keys_filter:
  "remove_keys ks ps = filter (\<lambda>p. fst p \<notin> set ks) ps"
  unfolding remove_keys_def
proof (induction ks arbitrary: ps)
  case Nil
  then show ?case by simp
next
  case (Cons k ks)
  have "filter (\<lambda>p. fst p \<notin> set ks) (delete_prop k ps) = filter (\<lambda>p. fst p \<notin> set (k # ks)) ps"
    by (induction ps) (auto simp: delete_prop_def)
  then show ?case by (simp add: Cons.IH)
qed

lemma remove_nullish_loop:
  "distinct (map fst (as @ bs)) \<Longrightarrow>
   foldl (\<lambda>cur key. if nullish (get_prop (JObj cur) key) then delete_prop key cur else cur)
      (filter (\<lambda>p. \<not> nullish (snd p)) as @ bs) (map fst bs)
     = filter (\<lambda>p. \<not> nullish (snd p)) (as @ bs)"
proof (induction bs arbitrary: as)
  case Nil
  then show ?case by simp
next
  case (Cons b bs)
  let ?keep = "filter (\<lambda>p. \<not> nullish (snd p)) as"
  let ?cur = "?keep @ b # bs"
  have d: "distinct (map fst ?cur)"
    using Cons.prems by (auto simp: distinct_map_filter)
  have g: "get_prop (JObj ?cur) (fst b) = snd b"
    using d by (intro get_prop_distinct) simp_all
  have nk: "fst b \<notin> fst ` set ?keep" "fst b \<notin> fst ` set bs"
    using Cons.prems by auto
  have del: "delete_prop (fst b) ?cur = ?keep @ bs"
  proof -
    have "delete_prop (fst b) ?keep = ?keep" using nk(1) by (rule delete_prop_absent)
    moreover have "delete_prop (fst b) bs = bs" using nk(2) by (rule delete_prop_absent)
    moreover have "delete_prop (fst b) ?cur = delete_prop (fst b) ?keep @ delete_prop (fst b) bs"
      by (simp add: delete_prop_def)
    ultimately show ?thesis by simp
  qed
  have next_cur: "(if nullish (get_prop (JObj ?cur) (fst b)) then delete_prop (fst b) ?cur else ?cur)
        = filter (\<lambda>p. \<not> nullish (snd p)) (as @ [b]) @ bs"
    using g del by simp
  have "foldl (\<lambda>cur key. if nullish (get_prop (JObj cur) key) then delete_prop key cur else cur)
          (filter (\<lambda>p. \<not> nullish (snd p)) (as @ [b]) @ bs) (map fst bs)
        = filter (\<lambda>p. \<not> nullish (snd p)) ((as @ [b]) @ bs)"
    using Cons.prems by (intro Cons.IH) simp
  then show ?case using next_cur by simp
qed

lemma remove_nullish_filter:
  "distinct (map fst ps) \<Longrightarrow> remove_nullish ps = filter (\<lambda>p. \<not> nullish (snd p)) ps"
  using remove_nullish_loop [of "[]" ps] by (simp add: remove_nullish_def own_keys_def)

lemma removeKeysFromQuery_filter:
  "removeKeysFromQuery p s ks
     = p @ ''?'' @ qs_stringify False
         (filter (\<lambda>q. fst q \<notin> set ks \<and> \<not> nullish (snd q)) (qs_parse s))"
proof -
  have "distinct (map fst (filter (\<lambda>q. fst q \<notin> set ks) (qs_parse s)))"
    using distinct_qs_parse [of s] by (simp add: distinct_map_filter)
  then have "remove_nullish (remove_keys ks (qs_parse s))
        = filter (\<lambda>q. \<not> nullish (snd q)) (filter (\<lambda>q. fst q \<notin> set ks) (qs_parse s))"
    by (simp add: remove_keys_filter remove_nullish_filter)
  also have "\<dots> = filter (\<lambda>q. fst q \<notin> set ks \<and> \<not> nullish (snd q)) (qs_parse s)"
    by (simp add: conj_commute)
  finally show ?thesis by (simp add: removeKeysFromQuery_def)
qed

text \<open>The keys that are not array indices stay in the order of their first occurrence.\<close>

lemma nonindex_insert_index:
  "array_index k = Some i \<Longrightarrow>
   filter (\<lambda>x. array_index x = None) (map fst (insert_index i k v ps))
     = filter (\<lambda>x. array_index x = None) (map fst ps)"
  by (induction ps) (auto split: option.splits)

lemma nonindex_set_prop:
  "filter (\<lambda>x. array_index x = None) (map fst (set_prop k v ps))
     = (if array_index k = None \<and> k \<notin> set (map fst ps)
        then filter (\<lambda>x. array_index x = None) (map fst ps) @ [k]
        else filter (\<lambda>x. array_index x = None) (map fst ps))"
  by (auto simp: set_prop_def map_fst_update_prop nonindex_insert_index split: option.splits)

lemma keys_parse_step:
  "map fst (parse_step obj kv)
     = (if fst kv = [] then map fst obj else map fst (set_prop (fst kv) JNull obj))"
proof -
  have "map fst (set_prop k v obj) = map fst (set_prop k w obj)" for k v w
  proof -
    have "map fst (insert_index i k v qs) = map fst (insert_index i k w qs)" for i qs
      by (induction qs) (auto split: option.splits)
    then show ?thesis by (simp add: set_prop_def map_fst_update_prop split: option.splits)
  qed
  then show ?thesis by (auto simp: parse_step_def split: option.splits)
qed

lemma nonindex_parse_step:
  "filter (\<lambda>x. array_index x = None) (map fst (parse_step obj kv))
     = (if fst kv \<noteq> [] \<and> array_index (fst kv) = None
           \<and> fst kv \<notin> set (filter (\<lambda>x. array_index x = None) (map fst obj))
        then filter (\<lambda>x. array_index x = None) (map fst obj) @ [fst kv]
        else filter (\<lambda>x. array_index x = None) (map fst obj))"
  by (simp add: keys_parse_step nonindex_set_prop)

lemma nonindex_foldl_parse:
  "filter (\<lambda>x. array_index x = None) (map fst (foldl parse_step obj parts))
     = foldl (\<lambda>acc x. if x \<in> set acc then acc else acc @ [x])
         (filter (\<lambda>x. array_index x = None) (map fst obj))
         (filter (\<lambda>x. x \<noteq> [] \<and> array_index x = None) (map fst parts))"
proof (induction parts arbitrary: obj)
  case Nil
  then show ?case by simp
next
  case (Cons kv parts)
  show ?case by (simp add: Cons.IH nonindex_parse_step)
qed

lemma nonindex_qs_parse:
  "filter (\<lambda>x. array_index x = None) (map fst (qs_parse s))
     = first_occurrences (filter (\<lambda>x. x \<noteq> [] \<and> array_index x = None) (query_keys s))"
  by (simp add: qs_parse_def nonindex_foldl_parse first_occurrences_def query_keys_def)

lemma qs_stringify_skips_nulls:
  "qs_stringify True obj = qs_stringify True (filter (\<lambda>q. snd q \<noteq> JNull) obj)"
proof -
  have "concat (map (\<lambda>p. qs_value True (fst p) (snd p)) obj)
        = concat (map (\<lambda>p. qs_value True (fst p) (snd p)) (filter (\<lambda>q. snd q \<noteq> JNull) obj))"
    by (induction obj) auto
  then show ?thesis by (simp add: qs_stringify_def)
qed

lemma filter_nonnull_set_prop_null:
  assumes "distinct (map fst ps)"
  shows "filter (\<lambda>q. snd q \<noteq> JNull) (set_prop k JNull ps)
           = filter (\<lambda>q. snd q \<noteq> JNull) (delete_prop k ps)"
proof (cases "k \<in> set (map fst ps)")
  case True
  have "distinct (map fst qs) \<Longrightarrow>
        filter (\<lambda>q. snd q \<noteq> JNull) (update_prop k JNull qs)
          = filter (\<lambda>q. snd q \<noteq> JNull) (delete_prop k qs)" for qs
  proof (induction qs)
    case Nil
    then show ?case by (simp add: delete_prop_def)
  next
    case (Cons q qs)
    show ?case
    proof (cases "fst q = k")
      case True
      then have "k \<notin> fst ` set qs" using Cons.prems by auto
      then have "delete_prop k qs = qs" by (rule delete_prop_absent)
      then show ?thesis using True by (simp add: delete_prop_def)
    next
      case False
      then show ?thesis using Cons by (simp add: delete_prop_def)
    qed
  qed
  then show ?thesis using True assms by (simp add: set_prop_def)
next
  case False
  then have a: "delete_prop k ps = ps" by (intro delete_prop_absent) simp
  have "filter (\<lambda>q. snd q \<noteq> JNull) (insert_index i k JNull qs) = filter (\<lambda>q. snd q \<noteq> JNull) qs"
    for i qs
    by (induction qs) (auto split: option.splits)
  then show ?thesis using False a by (simp add: set_prop_def split: option.splits)
qed

lemma formUrlQuery_null:
  "formUrlQuery p s k JNull = p @ ''?'' @ qs_stringify True (delete_prop k (qs_parse s))"
proof -
  have "qs_stringify True (set_prop k JNull (qs_parse s))
        = qs_stringify True (filter (\<lambda>q. snd q \<noteq> JNull) (set_prop k JNull (qs_parse s)))"
    by (rule qs_stringify_skips_nulls)
  also have "\<dots> = qs_stringify True (filter (\<lambda>q. snd q \<noteq> JNull) (delete_prop k (qs_parse s)))"
    by (simp add: filter_nonnull_set_prop_null distinct_qs_parse)
  also have "\<dots> = qs_stringify True (delete_prop k (qs_parse s))"
    by (rule qs_stringify_skips_nulls [symmetric])
  finally show ?thesis by (simp add: formUrlQuery_def)
qed

subsection \<open>What the two functions return\<close>

text \<open>
  Claim C3. \<open>formUrlQuery\<close> serializes, with \<^verbatim>\<open>skipNulls\<close>, the parsed query in which
  \<open>k\<close> has been set to \<open>v\<close>: the object holds \<open>v\<close> under \<open>k\<close>, whatever it held before,
  and every other key with its value and at its place; keys whose value is \<^verbatim>\<open>null\<close> are not
  written, so setting a key to \<^verbatim>\<open>null\<close> removes it from the result. For the query
  \<^verbatim>\<open>type=fill\<close>, the key \<^verbatim>\<open>color\<close> and the value \<^verbatim>\<open>red\<close> the result is the path followed
  by \<^verbatim>\<open>?type=fill&color=red\<close>.
\<close>

theorem formUrlQuery_sets_key:
  "formUrlQuery p s k v = p @ ''?'' @ qs_stringify True (set_prop k v (qs_parse s))
   \<and> map_of (set_prop k v (qs_parse s)) k = Some v
   \<and> (k' \<noteq> k \<longrightarrow> map_of (set_prop k v (qs_parse s)) k' = map_of (qs_parse s) k')
   \<and> delete_prop k (set_prop k v (qs_parse s)) = delete_prop k (qs_parse s)
   \<and> qs_stringify True obj = qs_stringify True (filter (\<lambda>q. snd q \<noteq> JNull) obj)
   \<and> formUrlQuery p s k JNull = p @ ''?'' @ qs_stringify True (delete_prop k (qs_parse s))
   \<and> formUrlQuery p ''type=fill'' ''color'' (JStr ''red'') = p @ ''?type=fill&color=red''"
proof -
  have 1: "formUrlQuery p s k v = p @ ''?'' @ qs_stringify True (set_prop k v (qs_parse s))"
    by (simp add: formUrlQuery_def)
  have 2: "map_of (set_prop k v (qs_parse s)) k = Some v"
    by (simp add: map_of_set_prop)
  have 3: "k' \<noteq> k \<longrightarrow> map_of (set_prop k v (qs_parse s)) k' = map_of (qs_parse s) k'"
    by (simp add: map_of_set_prop)
  have 4: "delete_prop k (set_prop k v (qs_parse s)) = delete_prop k (qs_parse s)"
    by (rule delete_set_prop)
  have 5: "qs_stringify True obj = qs_stringify True (filter (\<lambda>q. snd q \<noteq> JNull) obj)"
    by (rule qs_stringify_skips_nulls)
  have 6: "formUrlQuery p s k JNull = p @ ''?'' @ qs_stringify True (delete_prop k (qs_parse s))"
    by (rule formUrlQuery_null)
  have 7: "formUrlQuery p ''type=fill'' ''color'' (JStr ''red'') = p @ ''?type=fill&color=red''"
    by (simp add: qs_eval js_eval)
  from 1 2 3 4 5 6 7 show ?thesis by (intro conjI)
qed

text \<open>
  Witness for C3: in \<^verbatim>\<open>type=fill&color=blue\<close> with \<^verbatim>\<open>color\<close> set to \<^verbatim>\<open>red\<close> the other
  key, \<^verbatim>\<open>type\<close>, keeps its value.
\<close>

theorem formUrlQuery_sets_key_witness:
  "''type'' \<noteq> ''color''
   \<and> map_of (set_prop ''color'' (JStr ''red'') (qs_parse ''type=fill&color=blue'')) ''type''
       = Some (JStr ''fill'')"
proof -
  note T = formUrlQuery_sets_key
    [of "''/shop''" "''type=fill&color=blue''" "''color''" "JStr ''red''" "''type''" "[]"]
  have a: "''type'' \<noteq> ''color''" by simp
  have b: "map_of (qs_parse ''type=fill&color=blue'') ''type'' = Some (JStr ''fill'')"
    by (simp add: qs_eval js_eval)
  have "map_of (set_prop ''color'' (JStr ''red'') (qs_parse ''type=fill&color=blue'')) ''type''
          = map_of (qs_parse ''type=fill&color=blue'') ''type''"
    using T [THEN conjunct2, THEN conjunct2, THEN conjunct1] a by (rule mp)
  then show ?thesis using a b by (simp only: simp_thms)
qed

text \<open>
  Claim C4 says that the keys that remain are written in their order in the original
  string. The parsed query is an object, and an object enumerates the keys that are array
  indices first: from \<^verbatim>\<open>b=1&0=2\<close>, with nothing to remove, the result is \<^verbatim>\<open>?0=2&b=1\<close>.
\<close>

theorem removeKeysFromQuery_order_counterexample:
  "query_keys ''b=1&0=2'' = [''b'', ''0'']
   \<and> removeKeysFromQuery ''/'' ''b=1&0=2'' [] = ''/?0=2&b=1''
   \<and> query_keys ''0=2&b=1'' = [''0'', ''b'']"
  by (simp add: query_keys_def qs_eval js_eval)

text \<open>
  Claim C4, amended. \<open>removeKeysFromQuery\<close> serializes the parsed query without the keys
  of \<open>keysToRemove\<close> (a key that is absent changes nothing) and without the keys whose
  value is \<^verbatim>\<open>null\<close> or \<^verbatim>\<open>undefined\<close>, the rest in the order of the parsed object: the
  keys that are array indices first, in ascending order, then the other keys in the order
  of their first occurrence in the original string. Removing \<^verbatim>\<open>color\<close> from
  \<^verbatim>\<open>type=fill&color=red\<close> leaves \<^verbatim>\<open>?type=fill\<close>.
\<close>

theorem removeKeysFromQuery_removes_keys:
  "removeKeysFromQuery p s ks
     = p @ ''?'' @ qs_stringify False
         (filter (\<lambda>q. fst q \<notin> set ks \<and> \<not> nullish (snd q)) (qs_parse s))
   \<and> ordered_keys (map fst (qs_parse s))
   \<and> filter (\<lambda>x. array_index x = None) (map fst (qs_parse s))
       = first_occurrences (filter (\<lambda>x. x \<noteq> [] \<and> array_index x = None) (query_keys s))
   \<and> removeKeysFromQuery p ''type=fill&color=red'' [''color''] = p @ ''?type=fill''"
proof -
  have "removeKeysFromQuery p ''type=fill&color=red'' [''color''] = p @ ''?type=fill''"
    by (simp add: qs_eval js_eval)
  then show ?thesis
    using removeKeysFromQuery_filter [of p s ks] ordered_keys_qs_parse [of s] nonindex_qs_parse [of s]
    by (intro conjI)
qed

text \<open>
  Witness for the amended C4: from \<^verbatim>\<open>type=fill&0=x&color=red&size=1\<close> without
  \<^verbatim>\<open>color\<close> and \<^verbatim>\<open>absent\<close> the result is \<^verbatim>\<open>?0=x&type=fill&size=1\<close>.
\<close>

theorem removeKeysFromQuery_removes_keys_witness:
  "removeKeysFromQuery ''/shop'' ''type=fill&0=x&color=red&size=1'' [''color'', ''absent'']
     = ''/shop?0=x&type=fill&size=1''"
proof -
  note T = removeKeysFromQuery_removes_keys
    [of "''/shop''" "''type=fill&0=x&color=red&size=1''" "[''color'', ''absent'']"]
  have a: "qs_parse ''type=fill&0=x&color=red&size=1''
       = [(''0'', JStr ''x''), (''type'', JStr ''fill''), (''color'', JStr ''red''), (''size'', JStr ''1'')]"
    by (simp add: qs_eval js_eval)
  have b: "''/shop'' @ ''?'' @ qs_stringify False
       (filter (\<lambda>q. fst q \<notin> set [''color'', ''absent''] \<and> \<not> nullish (snd q))
          [(''0'', JStr ''x''), (''type'', JStr ''fill''), (''color'', JStr ''red''), (''size'', JStr ''1'')])
       = ''/shop?0=x&type=fill&size=1''"
    by (simp add: qs_eval js_eval)
  show ?thesis using T [THEN conjunct1] unfolding a b .
qed

end
